theory Spec2Isabelle
  imports Main
begin

section \<open>Strings and paths as the program uses them\<close>

text \<open>
  Python strings are modelled as \<open>string\<close> (lists of characters). The functions below are
  the few operations of \<open>str\<close>, \<open>os.path\<close> (POSIX flavour) and \<open>datetime\<close> that
  \<open>ncspan_grabber.py\<close> calls.
\<close>

definition startswith :: "string \<Rightarrow> string \<Rightarrow> bool" where
  "startswith s p = (take (length p) s = p)"

definition endswith :: "string \<Rightarrow> string \<Rightarrow> bool" where
  "endswith s x = (length x \<le> length s \<and> drop (length s - length x) s = x)"

text \<open>\<open>sub in s\<close>: \<open>sub\<close> occurs in \<open>s\<close> as a contiguous run of characters.\<close>

fun str_contains :: "string \<Rightarrow> string \<Rightarrow> bool" where
  "str_contains [] sub = (sub = [])"
| "str_contains (c # cs) sub = (startswith (c # cs) sub \<or> str_contains cs sub)"

declare str_contains.simps [simp del]

text \<open>\<open>s.lstrip(chars)\<close>: drop leading characters that are in \<open>chars\<close>.\<close>

definition lstrip :: "string \<Rightarrow> string \<Rightarrow> string" where
  "lstrip s chars = dropWhile (\<lambda>c. c \<in> set chars) s"

text \<open>
  \<open>s.replace(old, new)\<close>: every non-overlapping occurrence of \<open>old\<close>, found from the left,
  is replaced. For an empty \<open>old\<close> Python inserts \<open>new\<close> before every character and at
  the end.
\<close>

function str_replace :: "string \<Rightarrow> string \<Rightarrow> string \<Rightarrow> string" where
  "str_replace s old new =
     (if old = [] then new @ concat (map (\<lambda>c. c # new) s)
      else if s = [] then []
      else if startswith s old then new @ str_replace (drop (length old) s) old new
      else hd s # str_replace (tl s) old new)"
  by pat_completeness auto
termination
  by (relation "measure (\<lambda>(s, old, new). length s)") auto

declare str_replace.simps [simp del]

text \<open>\<open>s.rfind(c)\<close> for a single character: the index of its last occurrence, or \<open>-1\<close>.\<close>

fun rfind_from :: "char \<Rightarrow> string \<Rightarrow> int \<Rightarrow> int \<Rightarrow> int" where
  "rfind_from c [] i found = found"
| "rfind_from c (x # xs) i found = rfind_from c xs (i + 1) (if x = c then i else found)"

definition rfind :: "string \<Rightarrow> char \<Rightarrow> int" where
  "rfind s c = rfind_from c s 0 (- 1)"

text \<open>
  \<open>os.path.splitext(p)\<close> (\<open>genericpath._splitext\<close> with separator \<open>/\<close> and extension
  separator \<open>.\<close>): the extension starts at the last dot of the last path component,
  unless that component consists of leading dots only up to there.
\<close>

definition splitext :: "string \<Rightarrow> string \<times> string" where
  "splitext p =
     (let sepIndex = rfind p (CHR ''/'');
          dotIndex = rfind p (CHR ''.'')
      in if dotIndex > sepIndex \<and>
            list_ex (\<lambda>c. c \<noteq> CHR ''.'')
              (take (nat (dotIndex - (sepIndex + 1))) (drop (nat (sepIndex + 1)) p))
         then (take (nat dotIndex) p, drop (nat dotIndex) p)
         else (p, []))"

text \<open>\<open>os.path.basename(p)\<close>: what follows the last \<open>/\<close>.\<close>

definition basename :: "string \<Rightarrow> string" where
  "basename p = drop (nat (rfind p (CHR ''/'') + 1)) p"

text \<open>\<open>os.path.join(a, b)\<close> for two components.\<close>

definition path_join :: "string \<Rightarrow> string \<Rightarrow> string" where
  "path_join a b =
     (if startswith b ''/'' then b
      else if a = [] \<or> endswith a ''/'' then a @ b
      else a @ ''/'' @ b)"

text \<open>\<open>str(n)\<close> for an integer, and a number padded with zeros on the left to a width.\<close>

fun digits :: "nat \<Rightarrow> string" where
  "digits n =
     (if n < 10 then [char_of (48 + n)]
      else digits (n div 10) @ [char_of (48 + n mod 10)])"

declare digits.simps [simp del]

definition str_int :: "int \<Rightarrow> string" where
  "str_int i = (if i < 0 then ''-'' @ digits (nat (- i)) else digits (nat i))"

definition zero_pad :: "nat \<Rightarrow> nat \<Rightarrow> string" where
  "zero_pad width n = replicate (width - length (digits n)) (CHR ''0'') @ digits n"

text \<open>
  A \<open>datetime\<close> with its calendar fields (the program reads the clock in UTC), and
  \<open>strftime("%Y%m%dT%H%M%S")\<close>: the year on four digits, the other fields on two. For a
  year below 1000 platforms differ (glibc's \<open>strftime\<close> does not pad it); the model is
  read for the years 1000 to 9999 only.
\<close>

record datetime =
  year :: nat
  month :: nat
  day :: nat
  hour :: nat
  minute :: nat
  second :: nat

definition strftime_compact :: "datetime \<Rightarrow> string" where
  "strftime_compact d =
     zero_pad 4 (year d) @ zero_pad 2 (month d) @ zero_pad 2 (day d) @ ''T'' @
     zero_pad 2 (hour d) @ zero_pad 2 (minute d) @ zero_pad 2 (second d)"

section \<open>Filename builder\<close>

text \<open>
  \<^verbatim>\<open>def generate_timestamped_output_template(start, end, prefix, ext_template="%(ext)s")\<close>
  returns \<^verbatim>\<open>f"{prefix}live_{start_str}_to_{end_str}.{ext_template}"\<close>.
\<close>

definition generate_timestamped_output_template ::
  "datetime \<Rightarrow> datetime \<Rightarrow> string \<Rightarrow> string \<Rightarrow> string" where
  "generate_timestamped_output_template start end prefix ext_template =
     (let start_str = strftime_compact start;
          end_str = strftime_compact end
      in prefix @ ''live_'' @ start_str @ ''_to_'' @ end_str @ ''.'' @ ext_template)"

text \<open>
  The name a downloaded file \<open>file\<close> is renamed to in \<open>main\<close>:
  \<^verbatim>\<open>ext = os.path.splitext(file)[1]\<close>,
  \<^verbatim>\<open>final_name = final_template.replace("%(ext)s", ext.lstrip("."))\<close>.
\<close>

definition final_name_of :: "string \<Rightarrow> string \<Rightarrow> string" where
  "final_name_of final_template file =
     (let ext = snd (splitext file)
      in str_replace final_template ''%(ext)s'' (lstrip ext ''.''))"

section \<open>Internet Archive sidecar documents\<close>

text \<open>
  What the program does to the outside world is recorded as a list of effects, in the
  order in which they happen. Log messages keep their level and the values the source
  formats into them; the rendering of the message text is not modelled.
  \<open>Thread_excepthook e\<close> stands for an exception that leaves the worker thread's target
  uncaught: Python hands it to \<open>threading.excepthook\<close> (a traceback on stderr, nothing for
  \<open>SystemExit\<close>); nothing reaches the logger or the thread that started the worker.
\<close>

datatype level = INFO | WARNING

text \<open>
  A Python exception with its message: one whose class derives from \<open>Exception\<close> (what
  \<open>except Exception\<close> catches), or one that derives from \<open>BaseException\<close> only
  (\<open>SystemExit\<close>, \<open>KeyboardInterrupt\<close>, \<open>GeneratorExit\<close>).
\<close>

datatype py_exception = Exception string | Non_Exception string

datatype message =
    Starting_download
  | Could_not_extract_info string
  | Generic_stream_detected
  | Scheduled_to_go_live_at int
  | Scheduled_no_start_time
  | Stream_already_ended
  | Not_a_live_stream
  | Non_YouTube_URL
  | Download_interrupted string
  | Stopping_download_after int
  | Download_complete nat nat
  | Renamed string string

record ydl_opts =
  outtmpl :: string
  format :: string
  noplaylist :: bool
  live_from_start :: bool
  prefer_free_formats :: bool
  legacyserverconnect :: bool

datatype effect =
    Makedirs string
  | Log level message
  | Extract_info string
  | Thread_start string ydl_opts
  | Stop_flag_set nat
  | Listdir string
  | Move string string
  | Write_file string string
  | Thread_excepthook py_exception

text \<open>
  \<open>x or d\<close> for an optional string: \<open>None\<close> and the empty string are both falsy.
\<close>

definition or_else :: "string option \<Rightarrow> string \<Rightarrow> string" where
  "or_else x d = (case x of None \<Rightarrow> d | Some s \<Rightarrow> if s = [] then d else s)"

definition nl :: string where
  "nl = [CHR 0x0A]"

definition dq :: string where
  "dq = [CHR 0x22]"

definition files_xml :: "string \<Rightarrow> string" where
  "files_xml filename =
     ''<files>'' @ nl @
     ''  <file name='' @ dq @ filename @ dq @ ''/>'' @ nl @
     ''</files>'' @ nl"

definition meta_xml ::
  "string \<Rightarrow> string option \<Rightarrow> string option \<Rightarrow> string option \<Rightarrow> string option \<Rightarrow> string" where
  "meta_xml identifier title description creator license_url =
     ''<metadata>'' @ nl @
     ''  <title>'' @ or_else title identifier @ ''</title>'' @ nl @
     ''  <identifier>'' @ identifier @ ''</identifier>'' @ nl @
     ''  <description>'' @ or_else description [] @ ''</description>'' @ nl @
     ''  <creator>'' @ or_else creator [] @ ''</creator>'' @ nl @
     ''  <licenseurl>'' @ or_else license_url [] @ ''</licenseurl>'' @ nl @
     ''  <mediatype>movies</mediatype>'' @ nl @
     ''</metadata>'' @ nl"

text \<open>
  \<open>write_internet_archive_metadata_files\<close> opens and writes two files; both writes are
  taken to succeed.
\<close>

definition write_internet_archive_metadata_files ::
  "string \<Rightarrow> string \<Rightarrow> string \<Rightarrow> string option \<Rightarrow> string option \<Rightarrow> string option \<Rightarrow>
   string option \<Rightarrow> effect list" where
  "write_internet_archive_metadata_files output_dir identifier filename title description
       creator license_url =
     (let files_xml_path = path_join output_dir (identifier @ ''_files.xml'');
          meta_xml_path = path_join output_dir (identifier @ ''_meta.xml'')
      in [Write_file files_xml_path (files_xml filename),
          Write_file meta_xml_path
            (meta_xml identifier title description creator license_url)])"

section \<open>Stream checker\<close>

text \<open>
  A function of the program returns a value, ends the process with \<open>exit(n)\<close>, or is left
  by an exception nothing catches (the process then ends with a traceback and status 1).
\<close>

datatype 'a outcome = Return 'a | Exit int | Uncaught py_exception

text \<open>
  The fields that \<open>is_stream_live_or_exit\<close> reads from the dictionary that
  \<open>ydl.extract_info(url, download=False)\<close> returns; \<open>info.get(key)\<close> is \<open>None\<close> for a
  missing key. \<open>extract_info\<close> belongs to yt-dlp, so its result is an input of the model:
  \<open>Inl reason\<close> when it raises, \<open>Inr info\<close> when it returns.
\<close>

record info =
  extractor :: "string option"
  is_live :: "bool option"
  was_live :: "bool option"
  release_timestamp :: "int option"

text \<open>
  Truth values of optional booleans and integers: \<open>None\<close>, \<open>False\<close> and \<open>0\<close> are falsy.
\<close>

definition truthy :: "bool option \<Rightarrow> bool" where
  "truthy b = (b = Some True)"

text \<open>
  \<open>datetime.fromtimestamp(ts, UTC)\<close> returns for the seconds of the years 1 to 9999, from
  0001-01-01T00:00:00Z to 9999-12-31T23:59:59Z, and raises otherwise (\<open>ValueError\<close>: year
  out of range, or \<open>OverflowError\<close> further out; both derive from \<open>Exception\<close>).
\<close>

definition fromtimestamp_ok :: "int \<Rightarrow> bool" where
  "fromtimestamp_ok ts \<longleftrightarrow> - 62135596800 \<le> ts \<and> ts \<le> 253402300799"

text \<open>
  \<open>is_stream_live_or_exit\<close>. The scheduled time is formatted for the log message before
  \<open>exit(0)\<close> is reached, outside any \<open>try\<close>: when \<open>fromtimestamp\<close> raises, the exception
  leaves the function, and nothing in \<open>main\<close> catches it.
\<close>

definition is_stream_live_or_exit ::
  "(string \<Rightarrow> string + info) \<Rightarrow> string \<Rightarrow> effect list \<times> string outcome" where
  "is_stream_live_or_exit extract url =
     (case extract url of
        Inl e \<Rightarrow>
          ([Extract_info url, Log WARNING (Could_not_extract_info e)], Return ''generic'')
      | Inr info \<Rightarrow>
          if extractor info = Some ''generic'' then
            ([Extract_info url, Log INFO Generic_stream_detected], Return ''generic'')
          else if truthy (is_live info) \<and> \<not> truthy (was_live info) then
            (case release_timestamp info of
               None \<Rightarrow> ([Extract_info url, Log INFO Scheduled_no_start_time], Exit 0)
             | Some ts \<Rightarrow>
                 if ts = 0 then ([Extract_info url, Log INFO Scheduled_no_start_time], Exit 0)
                 else if fromtimestamp_ok ts then
                   ([Extract_info url, Log INFO (Scheduled_to_go_live_at ts)], Exit 0)
                 else ([Extract_info url], Uncaught (Exception ''timestamp out of range'')))
          else if truthy (is_live info) \<and> truthy (was_live info) then
            ([Extract_info url, Log INFO Stream_already_ended], Exit 0)
          else if \<not> truthy (is_live info) then
            ([Extract_info url, Log INFO Not_a_live_stream], Return ''structured'')
          else ([Extract_info url], Return ''structured''))"

section \<open>Download with a timeout\<close>

text \<open>
  Time is counted in ticks of one second; \<open>datetime.now(UTC)\<close> reads the tick count.
  \<open>YoutubeDL\<close> belongs to yt-dlp. What it does in the worker thread is an input of the
  model: for every tick after the thread has started, whether the thread is still busy
  without reporting (\<open>Working\<close>), the download calls the progress hooks (\<open>Progress\<close>),
  \<open>ydl.download([url])\<close> returns (\<open>Returns\<close>) or raises (\<open>Raises\<close>), the constructor
  \<open>YoutubeDL(ydl_opts)\<close> raises (\<open>Init_raises\<close>), or the download ends in one of these
  three ways and leaving the \<open>with\<close> block then raises (\<open>Exit_raises\<close>).
\<close>

datatype dl_end = After_return | After_raise py_exception | After_progress

datatype dl_event =
    Working
  | Progress
  | Returns
  | Raises py_exception
  | Init_raises py_exception
  | Exit_raises dl_end py_exception

type_synonym downloader = "nat \<Rightarrow> dl_event"

text \<open>
  \<open>threading.Event\<close>: a flag that starts cleared; \<open>set()\<close> raises it whatever its state,
  \<open>is_set()\<close> reads it.
\<close>

definition event_set :: "bool \<Rightarrow> bool" where
  "event_set flag = True"

definition is_set :: "bool \<Rightarrow> bool" where
  "is_set flag = flag"

text \<open>
  The progress hook
  \<^verbatim>\<open>lambda d: stop_flag.is_set() and (_ for _ in ()).throw(Exception("Timeout reached"))\<close>:
  the message of the exception it raises, if it raises.
\<close>

definition progress_hook :: "bool \<Rightarrow> string option" where
  "progress_hook stop_flag = (if is_set stop_flag then Some ''Timeout reached'' else None)"

text \<open>
  The call \<open>ydl.download([url])\<close> in one tick: still pending, returned, or left by an
  exception. A hook's exception leaves the call.
\<close>

datatype call_result = Pending | Returned | Raised py_exception

definition hook_result :: "bool \<Rightarrow> call_result" where
  "hook_result stop_flag =
     (case progress_hook stop_flag of None \<Rightarrow> Pending | Some m \<Rightarrow> Raised (Exception m))"

text \<open>
  The \<open>try\<close> statement of \<open>run_downloader\<close> (lines 114 to 117):
  \<^verbatim>\<open>try: ydl.download([url])\<close>
  \<^verbatim>\<open>except Exception as e: logger.warning(f"Download interrupted: {e}")\<close>.
  The thread is alive while the call is pending and finished, with its effects, once
  the call has returned or raised. An exception that is not an \<open>Exception\<close> passes the
  \<open>except\<close> clause and leaves the thread's target.
\<close>

datatype thread_state = Alive | Finished "effect list"

fun try_download :: "call_result \<Rightarrow> thread_state" where
  "try_download Pending = Alive"
| "try_download Returned = Finished []"
| "try_download (Raised (Exception m)) = Finished [Log WARNING (Download_interrupted m)]"
| "try_download (Raised (Non_Exception m)) = Finished [Thread_excepthook (Non_Exception m)]"

text \<open>
  Leaving the \<open>with\<close> block (line 113) when \<open>YoutubeDL.__exit__\<close> raises \<open>e\<close>: what was
  logged stays, and \<open>e\<close> leaves the thread's target (in place of an exception already on
  its way out).
\<close>

fun logged :: "effect \<Rightarrow> bool" where
  "logged (Log l m) = True"
| "logged x = False"

fun leave_raising :: "py_exception \<Rightarrow> thread_state \<Rightarrow> thread_state" where
  "leave_raising e Alive = Alive"
| "leave_raising e (Finished w) = Finished (filter logged w @ [Thread_excepthook e])"

text \<open>
  One tick of the thread's target \<open>run_downloader\<close> (lines 112 to 117). The \<open>with\<close>
  statement is outside the \<open>try\<close>: an exception of the constructor or of \<open>__exit__\<close> is
  not caught.
\<close>

fun run_downloader :: "dl_event \<Rightarrow> bool \<Rightarrow> thread_state" where
  "run_downloader Working stop_flag = try_download Pending"
| "run_downloader Progress stop_flag = try_download (hook_result stop_flag)"
| "run_downloader Returns stop_flag = try_download Returned"
| "run_downloader (Raises e) stop_flag = try_download (Raised e)"
| "run_downloader (Init_raises e) stop_flag = Finished [Thread_excepthook e]"
| "run_downloader (Exit_raises After_return e) stop_flag =
     leave_raising e (try_download Returned)"
| "run_downloader (Exit_raises (After_raise e1) e) stop_flag =
     leave_raising e (try_download (Raised e1))"
| "run_downloader (Exit_raises After_progress e) stop_flag =
     leave_raising e (try_download (hook_result stop_flag))"

text \<open>
  \<open>thread.join(timeout=n)\<close> entered at tick \<open>k\<close>: it returns at the first tick at which
  the thread has finished, and after \<open>n\<close> ticks at the latest. The result is the tick at
  which it returns and the state of the thread then (what \<open>thread.is_alive()\<close> reads).
  A thread that finishes in the very tick of the deadline counts as finished.
  (CPython raises \<open>OverflowError\<close> for a timeout beyond about 9.2e9 seconds; durations of
  that size are outside the model.)
\<close>

fun thread_join_timeout :: "downloader \<Rightarrow> bool \<Rightarrow> nat \<Rightarrow> nat \<Rightarrow> nat \<times> thread_state" where
  "thread_join_timeout dl stop_flag k 0 = (k, run_downloader (dl k) stop_flag)"
| "thread_join_timeout dl stop_flag k (Suc n) =
     (case run_downloader (dl k) stop_flag of
        Alive \<Rightarrow> thread_join_timeout dl stop_flag (Suc k) n
      | Finished w \<Rightarrow> (k, Finished w))"

text \<open>
  \<open>thread.join()\<close> entered at tick \<open>k\<close>: it returns when the thread has finished, with the
  tick and what the thread logged. It has no timeout: \<open>None\<close> stands for a call that never
  returns.
\<close>

partial_function (option) thread_join ::
  "downloader \<Rightarrow> bool \<Rightarrow> nat \<Rightarrow> (nat \<times> effect list) option" where
  "thread_join dl stop_flag k =
     (case run_downloader (dl k) stop_flag of
        Alive \<Rightarrow> thread_join dl stop_flag (Suc k)
      | Finished w \<Rightarrow> Some (k, w))"

declare thread_join.simps [code]

text \<open>
  The effects a worker thread can leave when it ends: warnings of an interrupted
  download, and exceptions handed to \<open>threading.excepthook\<close>.
\<close>

fun worker_effect :: "effect \<Rightarrow> bool" where
  "worker_effect (Log WARNING (Download_interrupted m)) = True"
| "worker_effect (Thread_excepthook e) = True"
| "worker_effect x = False"

definition worker_log :: "effect list \<Rightarrow> bool" where
  "worker_log w = list_all worker_effect w"

definition format_selector :: "int option \<Rightarrow> string" where
  "format_selector max_resolution =
     (case max_resolution of
        None \<Rightarrow> ''best''
      | Some r \<Rightarrow>
          if r = 0 then ''best''
          else ''bestvideo[height<='' @ str_int r @ '']+bestaudio/best[height<='' @
               str_int r @ '']/best'')"

text \<open>The options handed to \<open>YoutubeDL\<close> (lines 99 to 110), but for the logger and the hook.\<close>

definition ydl_options :: "string \<Rightarrow> bool \<Rightarrow> int option \<Rightarrow> bool \<Rightarrow> ydl_opts" where
  "ydl_options output_path free_formats max_resolution legacy_server_connect =
     \<lparr>outtmpl = output_path, format = format_selector max_resolution,
      noplaylist = True, live_from_start = True,
      prefer_free_formats = free_formats,
      legacyserverconnect = legacy_server_connect\<rparr>"

text \<open>
  \<open>download_with_timeout\<close> up to and including \<open>stop_flag.set()\<close> (lines 90 to 126): the
  clock reads \<open>now\<close> on entry, the thread is started, and \<open>thread.join(timeout=duration)\<close>
  waits (a negative timeout waits like 0). The orchestrator's own statements take no
  time. The result is the tick, counted from the start, at which the timed join
  returned, the state of the thread then, and the effects so far.
\<close>

definition launch_and_wait ::
  "nat \<Rightarrow> downloader \<Rightarrow> string \<Rightarrow> string \<Rightarrow> int \<Rightarrow> bool \<Rightarrow> int option \<Rightarrow> bool \<Rightarrow>
   (nat \<times> thread_state) \<times> effect list" where
  "launch_and_wait now dl url output_path duration free_formats max_resolution
       legacy_server_connect =
     (let stop_flag = False;
          opts = ydl_options output_path free_formats max_resolution legacy_server_connect;
          joined = thread_join_timeout dl stop_flag 0 (nat duration)
      in case snd joined of
           Finished w \<Rightarrow> (joined, Thread_start url opts # w)
         | Alive \<Rightarrow>
             (joined,
              [Thread_start url opts, Log INFO (Stopping_download_after duration),
               Stop_flag_set (now + fst joined)]))"

text \<open>
  The whole of \<open>download_with_timeout\<close>: after the flag is set the thread runs on from the
  next tick with the flag raised, and \<open>thread.join()\<close> waits for it. The result is the
  pair \<open>(start_time, end_time)\<close> with the effects, or \<open>None\<close> when the call never returns.
\<close>

definition download_with_timeout ::
  "nat \<Rightarrow> downloader \<Rightarrow> string \<Rightarrow> string \<Rightarrow> int \<Rightarrow> bool \<Rightarrow> int option \<Rightarrow> bool \<Rightarrow>
   ((nat \<times> nat) \<times> effect list) option" where
  "download_with_timeout now dl url output_path duration free_formats max_resolution
       legacy_server_connect =
     (let start_time = now in
      case launch_and_wait now dl url output_path duration free_formats max_resolution
             legacy_server_connect of
        ((t, Finished w), effs) \<Rightarrow>
          Some ((start_time, now + t),
                effs @ [Log INFO (Download_complete start_time (now + t))])
      | ((t, Alive), effs) \<Rightarrow>
          (case thread_join dl (event_set False) (Suc t) of
             None \<Rightarrow> None
           | Some (t', w) \<Rightarrow>
               Some ((start_time, now + t'),
                     effs @ w @ [Log INFO (Download_complete start_time (now + t'))])))"

section \<open>Main entrypoint\<close>

record args =
  url :: string
  "output" :: "string option"
  duration :: int
  debug :: bool
  log_file :: "string option"
  prefix :: string
  output_dir :: string
  free_formats :: bool
  max_resolution :: "int option"
  legacy_server_connect :: bool
  ia_title :: "string option"
  ia_description :: "string option"
  ia_creator :: "string option"
  ia_license :: "string option"

text \<open>
  What \<open>main\<close> meets outside the program: the answer of \<open>extract_info\<close>, the behaviour of
  \<open>ydl.download\<close>, the clock reading when \<open>download_with_timeout\<close> is entered, the entries
  that \<open>os.listdir(args.output_dir)\<close> returns after the download, and the calendar fields
  of a clock reading. Filesystem calls are taken to succeed.
\<close>

record world =
  extract_info :: "string \<Rightarrow> string + info"
  ydl_download :: downloader
  clock :: nat
  listdir :: "string list"
  utc :: "nat \<Rightarrow> datetime"

text \<open>Lines 183 to 190: the output directory, and the live check for YouTube URLs only.\<close>

definition main_classify :: "args \<Rightarrow> world \<Rightarrow> effect list \<times> string outcome" where
  "main_classify a w =
     (if str_contains (url a) ''youtube.com'' \<or> str_contains (url a) ''youtu.be'' then
        (case is_stream_live_or_exit (extract_info w) (url a) of
           (effs, stream_type) \<Rightarrow>
             ([Makedirs (output_dir a), Log INFO Starting_download] @ effs, stream_type))
      else
        ([Makedirs (output_dir a), Log INFO Starting_download, Log INFO Non_YouTube_URL],
         Return ''generic''))"

text \<open>
  The body of the loop over the directory entries (lines 201 to 215). \<open>shutil.move\<close> and
  the two writes are taken to succeed. They stay in the output directory, which \<open>main\<close>
  has created, when the prefix has no \<open>/\<close>. With a prefix that names a directory the final
  name lies below the output directory, and the source raises \<open>FileNotFoundError\<close> at
  line 206 when that directory is missing; the model does not follow that, and the
  properties of this path are stated for a prefix without \<open>/\<close>.
\<close>

definition rename_and_describe :: "args \<Rightarrow> string \<Rightarrow> string \<Rightarrow> effect list" where
  "rename_and_describe a final_template file =
     (if startswith file ''temp.'' \<and> \<not> endswith file ''.part'' then
        (let final_name = final_name_of final_template file;
             old_path = path_join (output_dir a) file;
             new_path = path_join (output_dir a) final_name;
             identifier = fst (splitext final_name)
         in [Move old_path new_path, Log INFO (Renamed file final_name)] @
            write_internet_archive_metadata_files (output_dir a) identifier final_name
              (ia_title a) (ia_description a) (ia_creator a) (ia_license a))
      else [])"

text \<open>
  Lines 192 to 229. \<open>not args.output\<close> holds for a missing and for an empty \<open>--output\<close>.
\<close>

definition main_capture :: "args \<Rightarrow> world \<Rightarrow> effect list option" where
  "main_capture a w =
     (if or_else (output a) [] = [] then
        (let temp_output = path_join (output_dir a) ''temp.%(ext)s'' in
         case download_with_timeout (clock w) (ydl_download w) (url a) temp_output
                (duration a) (free_formats a) (max_resolution a) (legacy_server_connect a) of
           None \<Rightarrow> None
         | Some ((start, end), effs) \<Rightarrow>
             (let final_template =
                    generate_timestamped_output_template (utc w start) (utc w end)
                      (prefix a) ''%(ext)s''
              in Some (effs @ [Listdir (output_dir a)] @
                       concat (map (rename_and_describe a final_template) (listdir w)))))
      else
        (let output_path = path_join (output_dir a) (or_else (output a) []) in
         case download_with_timeout (clock w) (ydl_download w) (url a) output_path
                (duration a) (free_formats a) (max_resolution a) (legacy_server_connect a) of
           None \<Rightarrow> None
         | Some ((start, end), effs) \<Rightarrow>
             (let identifier = fst (splitext (basename (or_else (output a) [])))
              in Some (effs @
                       write_internet_archive_metadata_files (output_dir a) identifier
                         (basename (or_else (output a) []))
                         (ia_title a) (ia_description a) (ia_creator a) (ia_license a)))))"

text \<open>
  \<open>main\<close>: the effects and how the process ends, or \<open>None\<close> when it never ends. An
  exception that leaves \<open>is_stream_live_or_exit\<close> leaves \<open>main\<close> too.
\<close>

definition main :: "args \<Rightarrow> world \<Rightarrow> (effect list \<times> unit outcome) option" where
  "main a w =
     (case main_classify a w of
        (effs, Exit n) \<Rightarrow> Some (effs, Exit n)
      | (effs, Uncaught e) \<Rightarrow> Some (effs, Uncaught e)
      | (effs, Return stream_type) \<Rightarrow>
          (case main_capture a w of
             None \<Rightarrow> None
           | Some effs' \<Rightarrow> Some (effs @ effs', Return ())))"

section \<open>Example workers\<close>

text \<open>
  Behaviours of \<open>ydl.download\<close> used as concrete inputs: a download that neither reports
  progress nor ends, one that reports progress in every tick and never ends by itself,
  one that returns in tick \<open>n\<close>, and one that raises an \<open>Exception\<close> in tick \<open>n\<close>.
\<close>

definition silent_worker :: downloader where
  "silent_worker = (\<lambda>k. Working)"

definition reporting_worker :: downloader where
  "reporting_worker = (\<lambda>k. Progress)"

definition finishing_worker :: "nat \<Rightarrow> downloader" where
  "finishing_worker n = (\<lambda>k. if k = n then Returns else Progress)"

definition failing_worker :: "nat \<Rightarrow> string \<Rightarrow> downloader" where
  "failing_worker n reason = (\<lambda>k. if k = n then Raises (Exception reason) else Working)"

text \<open>
  A download left by \<open>SystemExit\<close> in tick \<open>n\<close>, and a worker whose \<open>YoutubeDL(ydl_opts)\<close>
  raises at once.
\<close>

definition exiting_worker :: "nat \<Rightarrow> downloader" where
  "exiting_worker n = (\<lambda>k. if k = n then Raises (Non_Exception ''SystemExit'') else Working)"

definition broken_setup_worker :: downloader where
  "broken_setup_worker = (\<lambda>k. Init_raises (Exception ''bad option''))"

section \<open>Example invocations\<close>

text \<open>
  A clock for the examples: tick 0 is 2024-01-01T00:00:00Z (read within the first day).
\<close>

definition example_utc :: "nat \<Rightarrow> datetime" where
  "example_utc t =
     \<lparr>year = 2024, month = 1, day = 1, hour = t div 3600, minute = t div 60 mod 60,
      second = t mod 60\<rparr>"

text \<open>Answers of \<open>extract_info\<close>: a failure, and a given dictionary.\<close>

definition failing_extract :: "string \<Rightarrow> string + info" where
  "failing_extract q = Inl ''HTTP Error 404''"

definition answering :: "info \<Rightarrow> string \<Rightarrow> string + info" where
  "answering i q = Inr i"

definition generic_info :: info where
  "generic_info =
     \<lparr>extractor = Some ''generic'', is_live = None, was_live = None,
      release_timestamp = None\<rparr>"

definition scheduled_info :: info where
  "scheduled_info =
     \<lparr>extractor = Some ''youtube'', is_live = Some True, was_live = Some False,
      release_timestamp = Some 1704067200\<rparr>"

text \<open>A scheduled stream whose start time is given in milliseconds.\<close>

definition overflow_info :: info where
  "overflow_info = scheduled_info\<lparr>release_timestamp := Some 1704067200000\<rparr>"

definition ended_info :: info where
  "ended_info =
     \<lparr>extractor = Some ''youtube'', is_live = Some True, was_live = Some True,
      release_timestamp = None\<rparr>"

definition video_info :: info where
  "video_info =
     \<lparr>extractor = Some ''youtube'', is_live = Some False, was_live = Some False,
      release_timestamp = None\<rparr>"

text \<open>
  Command lines: a stream URL with \<open>-d 5 --prefix show_\<close>, the same with
  \<open>-o video.%(ext)s\<close>, and a YouTube URL.
\<close>

definition stream_args :: args where
  "stream_args =
     \<lparr>url = ''http://radio.example/live.mp3'', output = None, duration = 5, debug = False,
      log_file = None, prefix = ''show_'', output_dir = ''.'', free_formats = False,
      max_resolution = None, legacy_server_connect = False, ia_title = None,
      ia_description = None, ia_creator = None, ia_license = None\<rparr>"

definition explicit_args :: args where
  "explicit_args = stream_args\<lparr>output := Some ''video.%(ext)s''\<rparr>"

definition youtube_args :: args where
  "youtube_args = stream_args\<lparr>url := ''https://www.youtube.com/watch?v=abc''\<rparr>"

text \<open>
  Worlds: the download is cut off at the deadline and leaves only a partial file; the
  download returns in tick 3 and leaves \<open>temp.mp4\<close>; and worlds that differ in the
  answer of \<open>extract_info\<close>.
\<close>

definition interrupted_world :: world where
  "interrupted_world =
     \<lparr>extract_info = failing_extract, ydl_download = reporting_worker, clock = 100,
      listdir = [''temp.mp4.part''], utc = example_utc\<rparr>"

definition finished_world :: world where
  "finished_world =
     \<lparr>extract_info = failing_extract, ydl_download = finishing_worker 3, clock = 100,
      listdir = [''temp.mp4''], utc = example_utc\<rparr>"

definition scheduled_world :: world where
  "scheduled_world = finished_world\<lparr>extract_info := answering scheduled_info\<rparr>"

definition overflow_world :: world where
  "overflow_world = finished_world\<lparr>extract_info := answering overflow_info\<rparr>"

section \<open>Properties of the filename builder and the sidecar writer\<close>

text \<open>
  Claim C7. For start 2024-01-01T00:00:00Z, end 2024-01-01T00:05:00Z and prefix
  \<open>show_\<close>, the template built by \<open>generate_timestamped_output_template\<close>, with the
  extension of the downloaded file \<open>temp.mp4\<close> substituted as \<open>main\<close> does, is exactly
  \<open>show_live_20240101T000000_to_20240101T000500.mp4\<close>.
\<close>

theorem final_name_deterministic:
  "final_name_of
     (generate_timestamped_output_template
        \<lparr>year = 2024, month = 1, day = 1, hour = 0, minute = 0, second = 0\<rparr>
        \<lparr>year = 2024, month = 1, day = 1, hour = 0, minute = 5, second = 0\<rparr>
        ''show_'' ''%(ext)s'')
     ''temp.mp4''
   = ''show_live_20240101T000000_to_20240101T000500.mp4''"
  by code_simp

text \<open>
  Claim C8. Called with identifier \<open>X\<close>, filename \<open>X.mp4\<close> and no optional field,
  \<open>write_internet_archive_metadata_files\<close> writes a metadata document whose title is the
  identifier \<open>X\<close> and whose description, creator and licence elements are present and
  empty (next to the file manifest that lists \<open>X.mp4\<close>).
\<close>

theorem metadata_defaults:
  "write_internet_archive_metadata_files dir ''X'' ''X.mp4'' None None None None =
     [Write_file (path_join dir ''X_files.xml'')
        (''<files>'' @ nl @
         ''  <file name='' @ dq @ ''X.mp4'' @ dq @ ''/>'' @ nl @
         ''</files>'' @ nl),
      Write_file (path_join dir ''X_meta.xml'')
        (''<metadata>'' @ nl @
         ''  <title>X</title>'' @ nl @
         ''  <identifier>X</identifier>'' @ nl @
         ''  <description></description>'' @ nl @
         ''  <creator></creator>'' @ nl @
         ''  <licenseurl></licenseurl>'' @ nl @
         ''  <mediatype>movies</mediatype>'' @ nl @
         ''</metadata>'' @ nl)]"
  by (simp add: write_internet_archive_metadata_files_def files_xml_def meta_xml_def
      or_else_def)

section \<open>Properties of the bounded download\<close>

lemma hook_result_simps:
  "hook_result False = Pending" "hook_result True = Raised (Exception ''Timeout reached'')"
  by (simp_all add: hook_result_def progress_hook_def is_set_def)

lemma try_download_Raised:
  "try_download (Raised e) =
     Finished (case e of Exception m \<Rightarrow> [Log WARNING (Download_interrupted m)]
               | Non_Exception m \<Rightarrow> [Thread_excepthook e])"
  by (cases e) simp_all

lemma leave_raising_Raised:
  "leave_raising e (try_download (Raised e1)) =
     Finished (case e1 of Exception m \<Rightarrow> [Log WARNING (Download_interrupted m), Thread_excepthook e]
               | Non_Exception m \<Rightarrow> [Thread_excepthook e])"
  by (cases e1) simp_all

lemma run_downloader_Alive_iff:
  "run_downloader ev f = Alive \<longleftrightarrow>
     ev = Working \<or> ((ev = Progress \<or> (\<exists>e. ev = Exit_raises After_progress e)) \<and> \<not> f)"
proof (cases ev)
  case (Exit_raises x e)
  then show ?thesis
    by (cases x; cases f) (simp_all add: hook_result_simps leave_raising_Raised)
qed (cases f; simp add: hook_result_simps try_download_Raised)+

lemma worker_effect_iff:
  "worker_effect x \<longleftrightarrow>
     (\<exists>m. x = Log WARNING (Download_interrupted m)) \<or> (\<exists>e. x = Thread_excepthook e)"
  by (induction x rule: worker_effect.induct) simp_all

lemma worker_log_set:
  "worker_log w \<Longrightarrow> x \<in> set w \<Longrightarrow>
   (\<exists>m. x = Log WARNING (Download_interrupted m)) \<or> (\<exists>e. x = Thread_excepthook e)"
  by (simp add: worker_log_def list_all_iff worker_effect_iff)

lemma run_downloader_worker_log: "run_downloader ev f = Finished w \<Longrightarrow> worker_log w"
proof (cases ev)
  case (Exit_raises x e)
  then show "run_downloader ev f = Finished w \<Longrightarrow> worker_log w"
    by (cases x; cases f)
       (auto simp: hook_result_simps leave_raising_Raised worker_log_def
             split: py_exception.splits)
qed (cases f; auto simp: hook_result_simps try_download_Raised worker_log_def
       split: py_exception.splits)+

lemma worker_log_no_flag: "worker_log w \<Longrightarrow> Stop_flag_set t \<notin> set w"
  using worker_log_set [of w "Stop_flag_set t"] by auto

lemma thread_join_timeout_Alive:
  "(\<And>j. k \<le> j \<Longrightarrow> j \<le> k + n \<Longrightarrow> run_downloader (dl j) f = Alive) \<Longrightarrow>
   thread_join_timeout dl f k n = (k + n, Alive)"
proof (induction n arbitrary: k)
  case 0
  then show ?case by simp
next
  case (Suc n)
  have "run_downloader (dl k) f = Alive" using Suc.prems[of k] by simp
  moreover have "thread_join_timeout dl f (Suc k) n = (Suc k + n, Alive)"
    by (rule Suc.IH) (use Suc.prems in simp)
  ultimately show ?case by simp
qed

lemma thread_join_timeout_Finished:
  "k \<le> j \<Longrightarrow> j \<le> k + n \<Longrightarrow> (\<And>i. k \<le> i \<Longrightarrow> i < j \<Longrightarrow> run_downloader (dl i) f = Alive) \<Longrightarrow>
   run_downloader (dl j) f = Finished w \<Longrightarrow>
   thread_join_timeout dl f k n = (j, Finished w)"
proof (induction n arbitrary: k)
  case 0
  then show ?case by simp
next
  case (Suc n)
  show ?case
  proof (cases "j = k")
    case True
    with Suc.prems show ?thesis by simp
  next
    case False
    with Suc.prems have alive: "run_downloader (dl k) f = Alive" by simp
    have "thread_join_timeout dl f (Suc k) n = (j, Finished w)"
      by (rule Suc.IH) (use Suc.prems False in auto)
    with alive show ?thesis by simp
  qed
qed

lemma thread_join_Finished:
  "k \<le> j \<Longrightarrow> (\<And>i. k \<le> i \<Longrightarrow> i < j \<Longrightarrow> run_downloader (dl i) f = Alive) \<Longrightarrow>
   run_downloader (dl j) f = Finished w \<Longrightarrow> thread_join dl f k = Some (j, w)"
proof (induction "j - k" arbitrary: k)
  case 0
  then have "j = k" by simp
  with 0 show ?case by (subst thread_join.simps) simp
next
  case (Suc d)
  then have alive: "run_downloader (dl k) f = Alive" by simp
  have "thread_join dl f (Suc k) = Some (j, w)"
    by (rule Suc.hyps(1)) (use Suc in auto)
  with alive show ?case by (subst thread_join.simps) simp
qed

lemma thread_join_SomeD:
  assumes ret: "thread_join dl f k = Some r"
  shows "k \<le> fst r \<and> run_downloader (dl (fst r)) f = Finished (snd r) \<and>
         (\<forall>i. k \<le> i \<and> i < fst r \<longrightarrow> run_downloader (dl i) f = Alive)"
proof (rule thread_join.raw_induct [where P = "\<lambda>dl f k r. k \<le> fst r \<and>
         run_downloader (dl (fst r)) f = Finished (snd r) \<and>
         (\<forall>i. k \<le> i \<and> i < fst r \<longrightarrow> run_downloader (dl i) f = Alive)", OF _ ret])
  fix g and dl :: downloader and f k r
  assume IH: "\<And>dl f k r. g dl f k = Some r \<Longrightarrow> k \<le> fst r \<and>
         run_downloader (dl (fst r)) f = Finished (snd r) \<and>
         (\<forall>i. k \<le> i \<and> i < fst r \<longrightarrow> run_downloader (dl i) f = Alive)"
    and eq: "(case run_downloader (dl k) f of Alive \<Rightarrow> g dl f (Suc k)
              | Finished w \<Rightarrow> Some (k, w)) = Some r"
  show "k \<le> fst r \<and> run_downloader (dl (fst r)) f = Finished (snd r) \<and>
         (\<forall>i. k \<le> i \<and> i < fst r \<longrightarrow> run_downloader (dl i) f = Alive)"
  proof (cases "run_downloader (dl k) f")
    case Alive
    with eq have "g dl f (Suc k) = Some r" by simp
    from IH[OF this] have *: "Suc k \<le> fst r"
      "run_downloader (dl (fst r)) f = Finished (snd r)"
      "\<forall>i. Suc k \<le> i \<and> i < fst r \<longrightarrow> run_downloader (dl i) f = Alive" by simp_all
    have "\<forall>i. k \<le> i \<and> i < fst r \<longrightarrow> run_downloader (dl i) f = Alive"
    proof (intro allI impI)
      fix i assume "k \<le> i \<and> i < fst r"
      then show "run_downloader (dl i) f = Alive"
        using * Alive by (cases "i = k") auto
    qed
    with * show ?thesis by simp
  next
    case (Finished w)
    with eq have "r = (k, w)" by simp
    with Finished show ?thesis by auto
  qed
qed

lemma thread_join_None_iff:
  "thread_join dl f k = None \<longleftrightarrow> (\<forall>j\<ge>k. run_downloader (dl j) f = Alive)"
proof
  assume none: "thread_join dl f k = None"
  show "\<forall>j\<ge>k. run_downloader (dl j) f = Alive"
  proof (rule ccontr)
    assume "\<not> (\<forall>j\<ge>k. run_downloader (dl j) f = Alive)"
    then have ex: "\<exists>j. k \<le> j \<and> run_downloader (dl j) f \<noteq> Alive" by blast
    define j where "j = (LEAST j. k \<le> j \<and> run_downloader (dl j) f \<noteq> Alive)"
    from ex have j: "k \<le> j \<and> run_downloader (dl j) f \<noteq> Alive"
      unfolding j_def by (rule LeastI_ex)
    have least: "\<And>i. k \<le> i \<Longrightarrow> i < j \<Longrightarrow> run_downloader (dl i) f = Alive"
      unfolding j_def using not_less_Least by blast
    from j obtain w where "run_downloader (dl j) f = Finished w"
      by (cases "run_downloader (dl j) f") auto
    with j least have "thread_join dl f k = Some (j, w)"
      by (intro thread_join_Finished) auto
    with none show False by simp
  qed
next
  assume alive: "\<forall>j\<ge>k. run_downloader (dl j) f = Alive"
  show "thread_join dl f k = None"
  proof (cases "thread_join dl f k")
    case None
    then show ?thesis .
  next
    case (Some r)
    from thread_join_SomeD[OF Some] alive show ?thesis by auto
  qed
qed

lemma launch_and_wait_Alive:
  assumes "\<And>j. j \<le> nat d \<Longrightarrow> run_downloader (dl j) False = Alive"
  shows "launch_and_wait now dl u out d ff mr lsc =
     ((nat d, Alive),
      [Thread_start u (ydl_options out ff mr lsc), Log INFO (Stopping_download_after d),
       Stop_flag_set (now + nat d)])"
proof -
  have "thread_join_timeout dl False 0 (nat d) = (0 + nat d, Alive)"
    by (rule thread_join_timeout_Alive) (use assms in simp)
  then show ?thesis by (simp add: launch_and_wait_def)
qed

lemma launch_and_wait_Finished:
  assumes "j \<le> nat d" and "\<And>i. i < j \<Longrightarrow> run_downloader (dl i) False = Alive"
    and "run_downloader (dl j) False = Finished w"
  shows "launch_and_wait now dl u out d ff mr lsc =
     ((j, Finished w), Thread_start u (ydl_options out ff mr lsc) # w)"
proof -
  have "thread_join_timeout dl False 0 (nat d) = (j, Finished w)"
    by (rule thread_join_timeout_Finished) (use assms in simp_all)
  then show ?thesis by (simp add: launch_and_wait_def)
qed

lemma download_natural:
  assumes "j \<le> nat d" and "\<And>i. i < j \<Longrightarrow> run_downloader (dl i) False = Alive"
    and "run_downloader (dl j) False = Finished w"
  shows "download_with_timeout now dl u out d ff mr lsc =
     Some ((now, now + j),
           Thread_start u (ydl_options out ff mr lsc) # w @
           [Log INFO (Download_complete now (now + j))])"
proof -
  have "launch_and_wait now dl u out d ff mr lsc =
     ((j, Finished w), Thread_start u (ydl_options out ff mr lsc) # w)"
    by (rule launch_and_wait_Finished) (use assms in simp_all)
  then show ?thesis by (simp add: download_with_timeout_def)
qed

lemma download_stopped:
  assumes "\<And>j. j \<le> nat d \<Longrightarrow> run_downloader (dl j) False = Alive"
    and "nat d < j" and "\<And>i. nat d < i \<Longrightarrow> i < j \<Longrightarrow> run_downloader (dl i) True = Alive"
    and "run_downloader (dl j) True = Finished w"
  shows "download_with_timeout now dl u out d ff mr lsc =
     Some ((now, now + j),
           [Thread_start u (ydl_options out ff mr lsc), Log INFO (Stopping_download_after d),
            Stop_flag_set (now + nat d)] @ w @
           [Log INFO (Download_complete now (now + j))])"
proof -
  have "thread_join dl True (Suc (nat d)) = Some (j, w)"
    by (rule thread_join_Finished) (use assms in simp_all)
  then show ?thesis
    by (simp add: download_with_timeout_def launch_and_wait_Alive [OF assms(1)] event_set_def)
qed

lemma download_hangs:
  assumes "\<And>j. j \<le> nat d \<Longrightarrow> run_downloader (dl j) False = Alive"
    and "\<And>j. nat d < j \<Longrightarrow> run_downloader (dl j) True = Alive"
  shows "download_with_timeout now dl u out d ff mr lsc = None"
proof -
  have "thread_join dl True (Suc (nat d)) = None"
    unfolding thread_join_None_iff using assms(2) by simp
  then show ?thesis
    by (simp add: download_with_timeout_def launch_and_wait_Alive [OF assms(1)] event_set_def)
qed

lemma download_returns_iff:
  "(\<exists>r. download_with_timeout now dl u out d ff mr lsc = Some r) \<longleftrightarrow>
   (\<exists>k. run_downloader (dl k) (nat d < k) \<noteq> Alive)"
proof (cases "\<forall>j\<le>nat d. run_downloader (dl j) False = Alive")
  case False
  then have ex: "\<exists>j. j \<le> nat d \<and> run_downloader (dl j) False \<noteq> Alive" by blast
  define j where "j = (LEAST j. j \<le> nat d \<and> run_downloader (dl j) False \<noteq> Alive)"
  from ex have j: "j \<le> nat d \<and> run_downloader (dl j) False \<noteq> Alive"
    unfolding j_def by (rule LeastI_ex)
  have least: "\<And>i. i < j \<Longrightarrow> run_downloader (dl i) False = Alive"
  proof -
    fix i assume "i < j"
    then have "\<not> (i \<le> nat d \<and> run_downloader (dl i) False \<noteq> Alive)"
      unfolding j_def by (rule not_less_Least)
    with \<open>i < j\<close> j show "run_downloader (dl i) False = Alive" by simp
  qed
  from j obtain w where w: "run_downloader (dl j) False = Finished w"
    by (cases "run_downloader (dl j) False") auto
  have "\<exists>r. download_with_timeout now dl u out d ff mr lsc = Some r"
    using download_natural [of j d dl w now u out ff mr lsc] j least w by simp
  moreover from j have "run_downloader (dl j) (nat d < j) \<noteq> Alive" by simp
  ultimately show ?thesis by blast
next
  case True
  then have before: "\<And>j. j \<le> nat d \<Longrightarrow> run_downloader (dl j) False = Alive" by simp
  show ?thesis
  proof (cases "\<forall>j>nat d. run_downloader (dl j) True = Alive")
    case True
    then have "download_with_timeout now dl u out d ff mr lsc = None"
      using before by (intro download_hangs) simp_all
    moreover have "run_downloader (dl k) (nat d < k) = Alive" for k
      using before [of k] True by (cases "k \<le> nat d") simp_all
    ultimately show ?thesis by simp
  next
    case False
    then have ex: "\<exists>j. nat d < j \<and> run_downloader (dl j) True \<noteq> Alive" by blast
    define j where "j = (LEAST j. nat d < j \<and> run_downloader (dl j) True \<noteq> Alive)"
    from ex have j: "nat d < j \<and> run_downloader (dl j) True \<noteq> Alive"
      unfolding j_def by (rule LeastI_ex)
    have least: "\<And>i. nat d < i \<Longrightarrow> i < j \<Longrightarrow> run_downloader (dl i) True = Alive"
    proof -
      fix i assume "nat d < i" "i < j"
      from \<open>i < j\<close> have "\<not> (nat d < i \<and> run_downloader (dl i) True \<noteq> Alive)"
        unfolding j_def by (rule not_less_Least)
      with \<open>nat d < i\<close> show "run_downloader (dl i) True = Alive" by simp
    qed
    from j obtain w where w: "run_downloader (dl j) True = Finished w"
      by (cases "run_downloader (dl j) True") auto
    have "\<exists>r. download_with_timeout now dl u out d ff mr lsc = Some r"
      using download_stopped [of d dl j w now u out ff mr lsc] before j least w by simp
    moreover from j have "run_downloader (dl j) (nat d < j) \<noteq> Alive" by simp
    ultimately show ?thesis by blast
  qed
qed

lemma busy_Alive:
  "ev = Working \<or> ev = Progress \<Longrightarrow> run_downloader ev False = Alive"
  by (auto simp: run_downloader_Alive_iff)

lemma download_after_deadline:
  assumes "\<And>j. j \<le> nat d \<Longrightarrow> run_downloader (dl j) False = Alive"
  shows "download_with_timeout now dl u out d ff mr lsc =
     (case thread_join dl True (Suc (nat d)) of
        None \<Rightarrow> None
      | Some (t', w) \<Rightarrow>
          Some ((now, now + t'),
                [Thread_start u (ydl_options out ff mr lsc),
                 Log INFO (Stopping_download_after d), Stop_flag_set (now + nat d)] @ w @
                [Log INFO (Download_complete now (now + t'))]))"
  by (simp add: download_with_timeout_def launch_and_wait_Alive [OF assms] event_set_def)

text \<open>
  Claim C1. For a duration \<open>d \<ge> 0\<close> and a worker that never ends by itself, the timed join
  runs to its deadline and the stop flag is set then, \<open>d\<close> seconds after \<open>start\<close> and not
  before; whenever \<open>download_with_timeout\<close> returns, \<open>start\<close> is the clock reading on
  entry and \<open>end \<ge> start + d\<close>; and it does return when the worker reports progress at some
  tick after the deadline.
\<close>

theorem timeout_sets_flag_after_duration:
  assumes d: "0 \<le> d" and busy: "\<forall>k. dl k = Working \<or> dl k = Progress"
  shows "snd (launch_and_wait now dl u out d ff mr lsc) =
           [Thread_start u (ydl_options out ff mr lsc), Log INFO (Stopping_download_after d),
            Stop_flag_set (now + nat d)] \<and>
         int (now + nat d) = int now + d \<and>
         (\<forall>s e effs. download_with_timeout now dl u out d ff mr lsc = Some ((s, e), effs) \<longrightarrow>
            s = now \<and> int s + d \<le> int e \<and> Stop_flag_set (now + nat d) \<in> set effs \<and>
            (\<forall>t. Stop_flag_set t \<in> set effs \<longrightarrow> int s + d \<le> int t)) \<and>
         ((\<exists>k>nat d. dl k = Progress) \<longrightarrow>
            (\<exists>e effs. download_with_timeout now dl u out d ff mr lsc = Some ((now, e), effs)))"
proof -
  have before: "\<And>j. j \<le> nat d \<Longrightarrow> run_downloader (dl j) False = Alive"
    using busy by (simp add: busy_Alive)
  have launch: "snd (launch_and_wait now dl u out d ff mr lsc) =
           [Thread_start u (ydl_options out ff mr lsc), Log INFO (Stopping_download_after d),
            Stop_flag_set (now + nat d)]"
    by (simp add: launch_and_wait_Alive [OF before])
  have time: "int (now + nat d) = int now + d" using d by simp
  have ret: "s = now \<and> int s + d \<le> int e \<and> Stop_flag_set (now + nat d) \<in> set effs \<and>
            (\<forall>t. Stop_flag_set t \<in> set effs \<longrightarrow> int s + d \<le> int t)"
    if some: "download_with_timeout now dl u out d ff mr lsc = Some ((s, e), effs)"
    for s e effs
  proof -
    have eq: "download_with_timeout now dl u out d ff mr lsc =
     (case thread_join dl True (Suc (nat d)) of
        None \<Rightarrow> None
      | Some (t', w) \<Rightarrow>
          Some ((now, now + t'),
                [Thread_start u (ydl_options out ff mr lsc),
                 Log INFO (Stopping_download_after d), Stop_flag_set (now + nat d)] @ w @
                [Log INFO (Download_complete now (now + t'))]))"
      by (rule download_after_deadline) (rule before)
    from some eq obtain t' w where tj: "thread_join dl True (Suc (nat d)) = Some (t', w)"
      and s: "s = now" and e: "e = now + t'"
      and effs: "effs = [Thread_start u (ydl_options out ff mr lsc),
                 Log INFO (Stopping_download_after d), Stop_flag_set (now + nat d)] @ w @
                [Log INFO (Download_complete now (now + t'))]"
      by (auto split: option.splits prod.splits)
    from thread_join_SomeD [OF tj] have t': "Suc (nat d) \<le> t'"
      and fin: "run_downloader (dl t') True = Finished w" by simp_all
    from run_downloader_worker_log [OF fin] have w: "\<forall>t. Stop_flag_set t \<notin> set w"
      by (simp add: worker_log_no_flag)
    from t' d have "int now + d \<le> int (now + t')" by simp
    with s e effs w d show ?thesis by auto
  qed
  have returning: "\<exists>e effs. download_with_timeout now dl u out d ff mr lsc = Some ((now, e), effs)"
    if "\<exists>k>nat d. dl k = Progress"
  proof -
    from that obtain k where "nat d < k" "dl k = Progress" by blast
    then have "run_downloader (dl k) (nat d < k) \<noteq> Alive"
      by (simp add: hook_result_simps)
    then have "\<exists>r. download_with_timeout now dl u out d ff mr lsc = Some r"
      unfolding download_returns_iff by blast
    then obtain s e effs where r: "download_with_timeout now dl u out d ff mr lsc = Some ((s, e), effs)"
      by auto
    with ret [OF r] show ?thesis by auto
  qed
  from launch time ret returning show ?thesis by blast
qed

theorem timeout_sets_flag_after_duration_witness:
  "snd (launch_and_wait 100 reporting_worker ''u'' ''o'' 5 False None False) =
     [Thread_start ''u'' (ydl_options ''o'' False None False),
      Log INFO (Stopping_download_after 5), Stop_flag_set 105] \<and>
   (\<exists>e effs. download_with_timeout 100 reporting_worker ''u'' ''o'' 5 False None False =
        Some ((100, e), effs) \<and> 105 \<le> e \<and> Stop_flag_set 105 \<in> set effs)"
proof -
  have h1: "(0::int) \<le> 5" by simp
  have h2: "\<forall>k. reporting_worker k = Working \<or> reporting_worker k = Progress"
    by (simp add: reporting_worker_def)
  note T = timeout_sets_flag_after_duration [OF h1 h2, of 100 "''u''" "''o''" False None False]
  have "\<exists>k>nat 5. reporting_worker k = Progress"
    by (rule exI [of _ 6]) (simp add: reporting_worker_def)
  with T obtain e effs where
    r: "download_with_timeout 100 reporting_worker ''u'' ''o'' 5 False None False =
        Some ((100, e), effs)"
    by blast
  with T have "int 100 + 5 \<le> int e \<and> Stop_flag_set (100 + nat 5) \<in> set effs" by blast
  then have "105 \<le> e \<and> Stop_flag_set 105 \<in> set effs" by simp
  with r T show ?thesis by simp
qed

text \<open>
  Claim C2. When the worker ends by itself (the download returns or raises) at a tick
  \<open>k\<close> before the duration \<open>d\<close> has elapsed, \<open>download_with_timeout\<close> returns with
  \<open>end = start + k\<close>, the tick of the worker's end and earlier than \<open>start + d\<close>, and the
  stop flag is never set.
\<close>

theorem natural_completion_keeps_flag_clear:
  assumes fin: "dl k = Returns \<or> (\<exists>m. dl k = Raises m)"
    and busy: "\<forall>j<k. dl j = Working \<or> dl j = Progress"
    and early: "int k < d"
  shows "\<exists>effs. download_with_timeout now dl u out d ff mr lsc = Some ((now, now + k), effs) \<and>
           (\<forall>t. Stop_flag_set t \<notin> set effs) \<and>
           (\<forall>t. Stop_flag_set t \<notin> set (snd (launch_and_wait now dl u out d ff mr lsc))) \<and>
           int (now + k) < int now + d"
proof -
  from fin obtain w where w: "run_downloader (dl k) False = Finished w"
    by (auto simp: try_download_Raised)
  from run_downloader_worker_log [OF w] have nof: "\<forall>t. Stop_flag_set t \<notin> set w"
    by (simp add: worker_log_no_flag)
  have k: "k \<le> nat d" using early by simp
  have before: "\<And>i. i < k \<Longrightarrow> run_downloader (dl i) False = Alive"
    using busy by (simp add: busy_Alive)
  have "download_with_timeout now dl u out d ff mr lsc =
     Some ((now, now + k),
           Thread_start u (ydl_options out ff mr lsc) # w @
           [Log INFO (Download_complete now (now + k))])"
    using k before w by (rule download_natural)
  moreover have "launch_and_wait now dl u out d ff mr lsc =
     ((k, Finished w), Thread_start u (ydl_options out ff mr lsc) # w)"
    using k before w by (rule launch_and_wait_Finished)
  ultimately show ?thesis using nof early by simp
qed

theorem natural_completion_keeps_flag_clear_witness:
  "\<exists>effs. download_with_timeout 100 (finishing_worker 3) ''u'' ''o'' 5 False None False =
      Some ((100, 103), effs) \<and> (\<forall>t. Stop_flag_set t \<notin> set effs)"
proof -
  have h1: "finishing_worker 3 3 = Returns \<or> (\<exists>m. finishing_worker 3 3 = Raises m)"
    by (simp add: finishing_worker_def)
  have h2: "\<forall>j<3. finishing_worker 3 j = Working \<or> finishing_worker 3 j = Progress"
    by (simp add: finishing_worker_def)
  have h3: "int 3 < 5" by simp
  from natural_completion_keeps_flag_clear
         [OF h1 h2 h3, of 100 "''u''" "''o''" False None False]
  show ?thesis by auto
qed

lemma download_stopped_ex:
  assumes before: "\<And>j. j \<le> nat d \<Longrightarrow> run_downloader (dl j) False = Alive"
    and k: "nat d < k" and fin: "run_downloader (dl k) True \<noteq> Alive"
  shows "\<exists>j w. nat d < j \<and> j \<le> k \<and> run_downloader (dl j) True = Finished w \<and>
           download_with_timeout now dl u out d ff mr lsc =
             Some ((now, now + j),
                   [Thread_start u (ydl_options out ff mr lsc),
                    Log INFO (Stopping_download_after d), Stop_flag_set (now + nat d)] @ w @
                   [Log INFO (Download_complete now (now + j))])"
proof -
  define j where "j = (LEAST j. nat d < j \<and> run_downloader (dl j) True \<noteq> Alive)"
  from k fin have "nat d < k \<and> run_downloader (dl k) True \<noteq> Alive" by simp
  then have j: "nat d < j \<and> run_downloader (dl j) True \<noteq> Alive" and jk: "j \<le> k"
    unfolding j_def by (rule LeastI, rule Least_le)
  have least: "run_downloader (dl i) True = Alive" if "nat d < i" "i < j" for i
  proof -
    from \<open>i < j\<close> have "\<not> (nat d < i \<and> run_downloader (dl i) True \<noteq> Alive)"
      unfolding j_def by (rule not_less_Least)
    with \<open>nat d < i\<close> show ?thesis by simp
  qed
  from j obtain w where w: "run_downloader (dl j) True = Finished w"
    by (cases "run_downloader (dl j) True") auto
  have "download_with_timeout now dl u out d ff mr lsc =
             Some ((now, now + j),
                   [Thread_start u (ydl_options out ff mr lsc),
                    Log INFO (Stopping_download_after d), Stop_flag_set (now + nat d)] @ w @
                   [Log INFO (Download_complete now (now + j))])"
    by (rule download_stopped) (use before j least w in simp_all)
  with j jk w show ?thesis by blast
qed

lemma download_returns_by:
  assumes busy: "\<And>j. j < k \<Longrightarrow> dl j = Working \<or> dl j = Progress"
    and fin: "run_downloader (dl k) (nat d < k) \<noteq> Alive"
  shows "\<exists>j w. j \<le> k \<and> run_downloader (dl j) (nat d < j) = Finished w \<and>
           (j < k \<longrightarrow> dl j = Progress \<and> nat d < j) \<and>
           download_with_timeout now dl u out d ff mr lsc =
             Some ((now, now + j),
                   (if j \<le> nat d then [Thread_start u (ydl_options out ff mr lsc)]
                    else [Thread_start u (ydl_options out ff mr lsc),
                          Log INFO (Stopping_download_after d), Stop_flag_set (now + nat d)]) @
                   w @ [Log INFO (Download_complete now (now + j))])"
proof (cases "k \<le> nat d")
  case True
  with fin obtain w where w: "run_downloader (dl k) False = Finished w"
    by (cases "run_downloader (dl k) False") auto
  have alive: "\<And>i. i < k \<Longrightarrow> run_downloader (dl i) False = Alive"
    using busy by (simp add: busy_Alive)
  have "download_with_timeout now dl u out d ff mr lsc =
     Some ((now, now + k),
           Thread_start u (ydl_options out ff mr lsc) # w @
           [Log INFO (Download_complete now (now + k))])"
    using True alive w by (rule download_natural)
  with True w show ?thesis by auto
next
  case False
  then have late: "nat d < k" by simp
  have before: "\<And>j. j \<le> nat d \<Longrightarrow> run_downloader (dl j) False = Alive"
    using busy late by (simp add: busy_Alive)
  from fin late have "run_downloader (dl k) True \<noteq> Alive" by simp
  from download_stopped_ex [where dl = dl and d = d and k = k and now = now and u = u
      and out = out and ff = ff and mr = mr and lsc = lsc, OF before late this]
  obtain j w where j: "nat d < j" "j \<le> k" and w: "run_downloader (dl j) True = Finished w"
    and r: "download_with_timeout now dl u out d ff mr lsc =
           Some ((now, now + j),
                 [Thread_start u (ydl_options out ff mr lsc),
                  Log INFO (Stopping_download_after d), Stop_flag_set (now + nat d)] @ w @
                 [Log INFO (Download_complete now (now + j))])"
    by blast
  have early: "j < k \<longrightarrow> dl j = Progress \<and> nat d < j"
  proof
    assume "j < k"
    from busy [OF this] w j show "dl j = Progress \<and> nat d < j"
      by (auto simp: run_downloader_Alive_iff)
  qed
  from j have nj: "\<not> j \<le> nat d" by simp
  show ?thesis
    by (rule exI [of _ j], rule exI [of _ w]) (simp add: j w r nj early)
qed

text \<open>
  Claim C3, as amended. An exception of class \<open>Exception\<close> that leaves \<open>ydl.download\<close> in
  the worker, raised by the download or by the progress hook after the stop flag was set,
  is caught in \<open>run_downloader\<close> and logged as a warning. An exception that is not an
  \<open>Exception\<close>, and one raised outside the \<open>try\<close> (by \<open>YoutubeDL(ydl_opts)\<close> or on leaving
  the \<open>with\<close> block), is not caught and not logged: it ends the worker thread and goes to
  \<open>threading.excepthook\<close>. In every case the thread ends, nothing reaches the
  orchestrator, and \<open>download_with_timeout\<close> returns its \<open>(start, end)\<close> pair.
\<close>

theorem worker_faults_are_contained:
  "run_downloader (Raises (Exception m)) flag = Finished [Log WARNING (Download_interrupted m)] \<and>
   run_downloader Progress (event_set flag) =
     Finished [Log WARNING (Download_interrupted ''Timeout reached'')] \<and>
   run_downloader (Raises (Non_Exception m)) flag =
     Finished [Thread_excepthook (Non_Exception m)] \<and>
   run_downloader (Init_raises x) flag = Finished [Thread_excepthook x] \<and>
   run_downloader (Exit_raises After_return x) flag = Finished [Thread_excepthook x] \<and>
   (run_downloader (dl k) False \<noteq> Alive \<and> (\<forall>j<k. dl j = Working \<or> dl j = Progress) \<longrightarrow>
      (\<exists>e effs. download_with_timeout now dl u out d ff mr lsc = Some ((now, e), effs) \<and>
         now \<le> e \<and> e \<le> now + k)) \<and>
   (dl k = Raises (Exception m) \<and> (\<forall>j<k. dl j = Working \<or> dl j = Progress) \<longrightarrow>
      (\<exists>e effs. download_with_timeout now dl u out d ff mr lsc = Some ((now, e), effs) \<and>
         (\<exists>m'. Log WARNING (Download_interrupted m') \<in> set effs))) \<and>
   (dl k = Progress \<and> nat d < k \<and> (\<forall>j<k. dl j = Working \<or> dl j = Progress) \<longrightarrow>
      (\<exists>e effs. download_with_timeout now dl u out d ff mr lsc = Some ((now, e), effs) \<and>
         now \<le> e \<and> e \<le> now + k \<and>
         Log WARNING (Download_interrupted ''Timeout reached'') \<in> set effs)) \<and>
   ((dl k = Raises (Non_Exception m) \<or> dl k = Init_raises (Non_Exception m) \<or>
     dl k = Init_raises (Exception m) \<or> dl k = Exit_raises After_return (Exception m)) \<and>
    k \<le> nat d \<and> (\<forall>j<k. dl j = Working \<or> dl j = Progress) \<longrightarrow>
      (\<exists>x. download_with_timeout now dl u out d ff mr lsc =
         Some ((now, now + k),
               [Thread_start u (ydl_options out ff mr lsc), Thread_excepthook x,
                Log INFO (Download_complete now (now + k))])))"
proof (intro conjI impI)
  show "run_downloader (Raises (Exception m)) flag =
          Finished [Log WARNING (Download_interrupted m)]"
    by simp
  show "run_downloader Progress (event_set flag) =
     Finished [Log WARNING (Download_interrupted ''Timeout reached'')]"
    by (simp add: hook_result_simps event_set_def)
  show "run_downloader (Raises (Non_Exception m)) flag =
     Finished [Thread_excepthook (Non_Exception m)]"
    by simp
  show "run_downloader (Init_raises x) flag = Finished [Thread_excepthook x]"
    by simp
  show "run_downloader (Exit_raises After_return x) flag = Finished [Thread_excepthook x]"
    by simp
next
  assume a: "run_downloader (dl k) False \<noteq> Alive \<and> (\<forall>j<k. dl j = Working \<or> dl j = Progress)"
  then have busy: "\<And>j. j < k \<Longrightarrow> dl j = Working \<or> dl j = Progress" by simp
  from a have "dl k \<noteq> Working" by (auto simp: run_downloader_Alive_iff)
  with a have fin: "run_downloader (dl k) (nat d < k) \<noteq> Alive"
    by (cases "nat d < k") (simp_all add: run_downloader_Alive_iff)
  from download_returns_by [where dl = dl and d = d and k = k and now = now and u = u
      and out = out and ff = ff and mr = mr and lsc = lsc, OF busy fin]
  show "\<exists>e effs. download_with_timeout now dl u out d ff mr lsc = Some ((now, e), effs) \<and>
         now \<le> e \<and> e \<le> now + k"
    by auto
next
  assume a: "dl k = Raises (Exception m) \<and> (\<forall>j<k. dl j = Working \<or> dl j = Progress)"
  then have raises: "dl k = Raises (Exception m)"
    and busy: "\<And>j. j < k \<Longrightarrow> dl j = Working \<or> dl j = Progress"
    by simp_all
  have fin: "run_downloader (dl k) (nat d < k) \<noteq> Alive" using raises by simp
  from download_returns_by [where dl = dl and d = d and k = k and now = now and u = u
      and out = out and ff = ff and mr = mr and lsc = lsc, OF busy fin]
  obtain j w pre where j: "j \<le> k" and w: "run_downloader (dl j) (nat d < j) = Finished w"
    and early: "j < k \<longrightarrow> dl j = Progress \<and> nat d < j"
    and r: "download_with_timeout now dl u out d ff mr lsc =
             Some ((now, now + j), pre @ w @ [Log INFO (Download_complete now (now + j))])"
    by blast
  have "\<exists>m'. w = [Log WARNING (Download_interrupted m')]"
  proof (cases "j < k")
    case True
    with early w show ?thesis by (auto simp: hook_result_simps)
  next
    case False
    with j have "j = k" by simp
    with w raises show ?thesis by auto
  qed
  with r show "\<exists>e effs. download_with_timeout now dl u out d ff mr lsc = Some ((now, e), effs) \<and>
         (\<exists>m'. Log WARNING (Download_interrupted m') \<in> set effs)"
    by auto
next
  assume a: "dl k = Progress \<and> nat d < k \<and> (\<forall>j<k. dl j = Working \<or> dl j = Progress)"
  then have progress: "dl k = Progress" and late: "nat d < k"
    and busy: "\<And>j. j < k \<Longrightarrow> dl j = Working \<or> dl j = Progress"
    by simp_all
  have fin: "run_downloader (dl k) (nat d < k) \<noteq> Alive"
    using progress late by (simp add: hook_result_simps)
  from download_returns_by [where dl = dl and d = d and k = k and now = now and u = u
      and out = out and ff = ff and mr = mr and lsc = lsc, OF busy fin]
  obtain j w pre where j: "j \<le> k" and w: "run_downloader (dl j) (nat d < j) = Finished w"
    and early: "j < k \<longrightarrow> dl j = Progress \<and> nat d < j"
    and r: "download_with_timeout now dl u out d ff mr lsc =
             Some ((now, now + j), pre @ w @ [Log INFO (Download_complete now (now + j))])"
    by blast
  have "dl j = Progress \<and> nat d < j"
    using early j progress late by (cases "j < k") auto
  with w have "w = [Log WARNING (Download_interrupted ''Timeout reached'')]"
    by (auto simp: hook_result_simps)
  with r j show "\<exists>e effs. download_with_timeout now dl u out d ff mr lsc = Some ((now, e), effs) \<and>
         now \<le> e \<and> e \<le> now + k \<and>
         Log WARNING (Download_interrupted ''Timeout reached'') \<in> set effs"
    by auto
next
  assume a: "(dl k = Raises (Non_Exception m) \<or> dl k = Init_raises (Non_Exception m) \<or>
     dl k = Init_raises (Exception m) \<or> dl k = Exit_raises After_return (Exception m)) \<and>
    k \<le> nat d \<and> (\<forall>j<k. dl j = Working \<or> dl j = Progress)"
  then have k: "k \<le> nat d" and busy: "\<And>j. j < k \<Longrightarrow> dl j = Working \<or> dl j = Progress"
    by simp_all
  from a obtain x where w: "run_downloader (dl k) False = Finished [Thread_excepthook x]"
    by auto
  have alive: "\<And>i. i < k \<Longrightarrow> run_downloader (dl i) False = Alive"
    using busy by (simp add: busy_Alive)
  have "download_with_timeout now dl u out d ff mr lsc =
     Some ((now, now + k),
           Thread_start u (ydl_options out ff mr lsc) # [Thread_excepthook x] @
           [Log INFO (Download_complete now (now + k))])"
    using k alive w by (rule download_natural)
  then show "\<exists>x. download_with_timeout now dl u out d ff mr lsc =
         Some ((now, now + k),
               [Thread_start u (ydl_options out ff mr lsc), Thread_excepthook x,
                Log INFO (Download_complete now (now + k))])"
    by auto
qed

theorem worker_faults_are_contained_witness:
  "(\<exists>e effs. download_with_timeout 100 (failing_worker 2 ''network down'') ''u'' ''o'' 5
        False None False = Some ((100, e), effs) \<and> e \<le> 102 \<and>
      (\<exists>m'. Log WARNING (Download_interrupted m') \<in> set effs)) \<and>
   (\<exists>e effs. download_with_timeout 100 reporting_worker ''u'' ''o'' 5
        False None False = Some ((100, e), effs) \<and> e \<le> 106 \<and>
      Log WARNING (Download_interrupted ''Timeout reached'') \<in> set effs) \<and>
   (\<exists>x. download_with_timeout 100 (exiting_worker 2) ''u'' ''o'' 5 False None False =
      Some ((100, 102),
            [Thread_start ''u'' (ydl_options ''o'' False None False), Thread_excepthook x,
             Log INFO (Download_complete 100 102)]))"
proof -
  note T = worker_faults_are_contained
  have h1: "failing_worker 2 ''network down'' 2 = Raises (Exception ''network down'') \<and>
     (\<forall>j<2. failing_worker 2 ''network down'' j = Working \<or>
             failing_worker 2 ''network down'' j = Progress)"
    by (simp add: failing_worker_def)
  have h1': "run_downloader (failing_worker 2 ''network down'' 2) False \<noteq> Alive \<and>
     (\<forall>j<2. failing_worker 2 ''network down'' j = Working \<or>
             failing_worker 2 ''network down'' j = Progress)"
    by (simp add: failing_worker_def)
  have h2: "reporting_worker 6 = Progress \<and> nat 5 < 6 \<and>
     (\<forall>j<6. reporting_worker j = Working \<or> reporting_worker j = Progress)"
    by (simp add: reporting_worker_def)
  have h3: "(exiting_worker 2 2 = Raises (Non_Exception ''SystemExit'') \<or>
      exiting_worker 2 2 = Init_raises (Non_Exception ''SystemExit'') \<or>
      exiting_worker 2 2 = Init_raises (Exception ''SystemExit'') \<or>
      exiting_worker 2 2 = Exit_raises After_return (Exception ''SystemExit'')) \<and>
     2 \<le> nat 5 \<and> (\<forall>j<2. exiting_worker 2 j = Working \<or> exiting_worker 2 j = Progress)"
    by (simp add: exiting_worker_def)
  from T [where m = "''network down''" and dl = "failing_worker 2 ''network down''" and k = 2
      and now = 100 and u = "''u''" and out = "''o''" and d = 5 and ff = False and mr = None
      and lsc = False] h1 h1'
  obtain e effs where
    "download_with_timeout 100 (failing_worker 2 ''network down'') ''u'' ''o'' 5
        False None False = Some ((100, e), effs)"
    "e \<le> 100 + 2" and
    "\<exists>e effs. download_with_timeout 100 (failing_worker 2 ''network down'') ''u'' ''o'' 5
        False None False = Some ((100, e), effs) \<and>
        (\<exists>m'. Log WARNING (Download_interrupted m') \<in> set effs)"
    by blast
  then have a: "\<exists>e effs. download_with_timeout 100 (failing_worker 2 ''network down'') ''u'' ''o'' 5
        False None False = Some ((100, e), effs) \<and> e \<le> 102 \<and>
      (\<exists>m'. Log WARNING (Download_interrupted m') \<in> set effs)"
    by auto
  from T [where dl = reporting_worker and k = 6 and now = 100 and u = "''u''" and out = "''o''"
      and d = 5 and ff = False and mr = None and lsc = False] h2
  obtain e2 effs2 where
    "download_with_timeout 100 reporting_worker ''u'' ''o'' 5
        False None False = Some ((100, e2), effs2)" "e2 \<le> 100 + 6"
    "Log WARNING (Download_interrupted ''Timeout reached'') \<in> set effs2"
    by blast
  then have b: "\<exists>e effs. download_with_timeout 100 reporting_worker ''u'' ''o'' 5
        False None False = Some ((100, e), effs) \<and> e \<le> 106 \<and>
      Log WARNING (Download_interrupted ''Timeout reached'') \<in> set effs"
    by auto
  from T [where m = "''SystemExit''" and dl = "exiting_worker 2" and k = 2 and now = 100
      and u = "''u''" and out = "''o''" and d = 5 and ff = False and mr = None
      and lsc = False] h3
  have c: "\<exists>x. download_with_timeout 100 (exiting_worker 2) ''u'' ''o'' 5 False None False =
      Some ((100, 102),
            [Thread_start ''u'' (ydl_options ''o'' False None False), Thread_excepthook x,
             Log INFO (Download_complete 100 102)])"
    by simp
  from a b c show ?thesis by blast
qed

text \<open>
  The claim as stated fails: \<open>SystemExit\<close> leaving the download, and an exception of the
  constructor \<open>YoutubeDL(ydl_opts)\<close>, end the worker without being caught and without a
  warning in the log.
\<close>

theorem uncaught_worker_exceptions:
  "download_with_timeout 100 (exiting_worker 2) ''u'' ''o'' 5 False None False =
     Some ((100, 102),
           [Thread_start ''u'' (ydl_options ''o'' False None False),
            Thread_excepthook (Non_Exception ''SystemExit''),
            Log INFO (Download_complete 100 102)]) \<and>
   download_with_timeout 100 broken_setup_worker ''u'' ''o'' 5 False None False =
     Some ((100, 100),
           [Thread_start ''u'' (ydl_options ''o'' False None False),
            Thread_excepthook (Exception ''bad option''),
            Log INFO (Download_complete 100 100)])"
proof -
  have "download_with_timeout 100 (exiting_worker 2) ''u'' ''o'' 5 False None False =
     Some ((100, 100 + 2),
           Thread_start ''u'' (ydl_options ''o'' False None False) #
           [Thread_excepthook (Non_Exception ''SystemExit'')] @
           [Log INFO (Download_complete 100 (100 + 2))])"
    by (rule download_natural) (simp_all add: exiting_worker_def)
  moreover
  have "download_with_timeout 100 broken_setup_worker ''u'' ''o'' 5 False None False =
     Some ((100, 100 + 0),
           Thread_start ''u'' (ydl_options ''o'' False None False) #
           [Thread_excepthook (Exception ''bad option'')] @
           [Log INFO (Download_complete 100 (100 + 0))])"
    by (rule download_natural) (simp_all add: broken_setup_worker_def)
  ultimately show ?thesis by simp
qed

lemma run_downloader_set_Alive_iff: "run_downloader ev True = Alive \<longleftrightarrow> ev = Working"
  by (simp add: run_downloader_Alive_iff)

text \<open>
  Claim C4, as amended. When the worker is still running at the deadline, the join that
  follows \<open>stop_flag.set()\<close> has no timeout: it returns exactly when, at some tick after
  the deadline, the download reports progress (so that the hook raises), returns or
  raises. \<open>download_with_timeout\<close> returns in that case and in no other.
\<close>

theorem join_after_stop_returns_iff:
  assumes busy: "\<forall>j\<le>nat d. dl j = Working \<or> dl j = Progress"
  shows "((\<exists>r. download_with_timeout now dl u out d ff mr lsc = Some r) \<longleftrightarrow>
            (\<exists>k>nat d. dl k \<noteq> Working)) \<and>
         (thread_join dl (event_set False) (Suc (nat d)) = None \<longleftrightarrow>
            (\<forall>k>nat d. dl k = Working))"
proof -
  have before: "\<And>j. j \<le> nat d \<Longrightarrow> run_downloader (dl j) False = Alive"
    using busy by (simp add: busy_Alive)
  have none: "thread_join dl True (Suc (nat d)) = None \<longleftrightarrow> (\<forall>k>nat d. dl k = Working)"
    unfolding thread_join_None_iff run_downloader_set_Alive_iff
    by (auto simp: Suc_le_eq)
  have "download_with_timeout now dl u out d ff mr lsc = None \<longleftrightarrow>
        thread_join dl True (Suc (nat d)) = None"
    by (simp add: download_after_deadline [OF before] split: option.splits)
  with none have "(\<exists>r. download_with_timeout now dl u out d ff mr lsc = Some r) \<longleftrightarrow>
            (\<exists>k>nat d. dl k \<noteq> Working)"
    by auto
  with none show ?thesis by (simp add: event_set_def)
qed

theorem join_after_stop_returns_iff_witness:
  "(\<exists>r. download_with_timeout 100 reporting_worker ''u'' ''o'' 5 False None False = Some r) \<and>
   thread_join silent_worker (event_set False) (Suc (nat 5)) = None"
proof -
  have h1: "\<forall>j\<le>nat 5. reporting_worker j = Working \<or> reporting_worker j = Progress"
    by (simp add: reporting_worker_def)
  have h2: "\<forall>j\<le>nat 5. silent_worker j = Working \<or> silent_worker j = Progress"
    by (simp add: silent_worker_def)
  have "\<exists>k>nat 5. reporting_worker k \<noteq> Working"
    by (rule exI [of _ 6]) (simp add: reporting_worker_def)
  with join_after_stop_returns_iff [OF h1, of 100 "''u''" "''o''" False None False]
  have a: "\<exists>r. download_with_timeout 100 reporting_worker ''u'' ''o'' 5 False None False = Some r"
    by blast
  have "\<forall>k>nat 5. silent_worker k = Working" by (simp add: silent_worker_def)
  with join_after_stop_returns_iff [OF h2, of 0 "''u''" "''o''" False None False]
  have b: "thread_join silent_worker (event_set False) (Suc (nat 5)) = None"
    by blast
  from a b show ?thesis by blast
qed

text \<open>
  The claim as stated fails: with a download that never reports progress and never
  ends, \<open>download_with_timeout\<close> with a duration of 5 seconds does not return.
\<close>

theorem join_after_stop_can_hang:
  "download_with_timeout 0 silent_worker ''u'' ''temp.%(ext)s'' 5 False None False = None"
  by (rule download_hangs) (simp_all add: silent_worker_def run_downloader_Alive_iff)

text \<open>
  Claim C9. Setting the stop flag a second time changes nothing: the flag, what
  \<open>is_set\<close> reads, what the progress hook does, and the worker's run are the same as
  after one \<open>set()\<close>.
\<close>

theorem stop_flag_set_idempotent:
  "event_set (event_set flag) = event_set flag \<and>
   is_set (event_set (event_set flag)) = is_set (event_set flag) \<and>
   progress_hook (event_set (event_set flag)) = progress_hook (event_set flag) \<and>
   run_downloader ev (event_set (event_set flag)) = run_downloader ev (event_set flag) \<and>
   thread_join dl (event_set (event_set flag)) k = thread_join dl (event_set flag) k"
  by (simp add: event_set_def)

section \<open>Properties of the stream checker and of main\<close>

lemma startswith_iff: "startswith s p \<longleftrightarrow> (\<exists>t. s = p @ t)"
proof
  assume "startswith s p"
  then have "s = p @ drop (length p) s"
    unfolding startswith_def by (metis append_take_drop_id)
  then show "\<exists>t. s = p @ t" ..
next
  assume "\<exists>t. s = p @ t"
  then show "startswith s p" by (auto simp: startswith_def)
qed

lemma str_contains_iff: "str_contains s sub \<longleftrightarrow> (\<exists>p t. s = p @ sub @ t)"
proof (induction s)
  case Nil
  then show ?case by (auto simp: str_contains.simps)
next
  case (Cons c cs)
  have "(\<exists>p t. c # cs = p @ sub @ t) \<longleftrightarrow>
        (\<exists>t. c # cs = sub @ t) \<or> (\<exists>p t. cs = p @ sub @ t)"
  proof
    assume "\<exists>p t. c # cs = p @ sub @ t"
    then obtain p t where pt: "c # cs = p @ sub @ t" by blast
    show "(\<exists>t. c # cs = sub @ t) \<or> (\<exists>p t. cs = p @ sub @ t)"
    proof (cases p)
      case Nil
      with pt show ?thesis by auto
    next
      case (Cons a p')
      with pt have "cs = p' @ sub @ t" by simp
      then show ?thesis by blast
    qed
  next
    assume "(\<exists>t. c # cs = sub @ t) \<or> (\<exists>p t. cs = p @ sub @ t)"
    then show "\<exists>p t. c # cs = p @ sub @ t"
    proof
      assume "\<exists>t. c # cs = sub @ t"
      then obtain t where "c # cs = [] @ sub @ t" by auto
      then show ?thesis by blast
    next
      assume "\<exists>p t. cs = p @ sub @ t"
      then obtain p t where "c # cs = (c # p) @ sub @ t" by auto
      then show ?thesis by blast
    qed
  qed
  with Cons.IH show ?case by (simp add: str_contains.simps startswith_iff)
qed

lemma thread_join_timeout_log:
  "thread_join_timeout dl f k n = (t, Finished w) \<Longrightarrow> run_downloader (dl t) f = Finished w"
  by (induction n arbitrary: k) (auto split: thread_state.splits)

lemma download_effects:
  assumes "download_with_timeout now dl u out d ff mr lsc = Some ((s, e), effs)"
  shows "\<exists>w t. worker_log w \<and>
           (effs = Thread_start u (ydl_options out ff mr lsc) # w @
                     [Log INFO (Download_complete s e)] \<or>
            effs = [Thread_start u (ydl_options out ff mr lsc),
                    Log INFO (Stopping_download_after d), Stop_flag_set t] @ w @
                     [Log INFO (Download_complete s e)])"
proof (cases "snd (thread_join_timeout dl False 0 (nat d))")
  case Alive
  then obtain t where t: "thread_join_timeout dl False 0 (nat d) = (t, Alive)"
    by (cases "thread_join_timeout dl False 0 (nat d)") auto
  with assms obtain t' w where tj: "thread_join dl True (Suc t) = Some (t', w)"
    and effs: "effs = [Thread_start u (ydl_options out ff mr lsc),
                    Log INFO (Stopping_download_after d), Stop_flag_set (now + t)] @ w @
                     [Log INFO (Download_complete s e)]"
    by (auto simp: download_with_timeout_def launch_and_wait_def event_set_def
             split: option.splits)
  from thread_join_SomeD [OF tj] have "worker_log w"
    by (auto intro: run_downloader_worker_log)
  with effs show ?thesis by blast
next
  case (Finished w)
  then obtain t where t: "thread_join_timeout dl False 0 (nat d) = (t, Finished w)"
    by (cases "thread_join_timeout dl False 0 (nat d)") auto
  with assms have effs: "effs = Thread_start u (ydl_options out ff mr lsc) # w @
                     [Log INFO (Download_complete s e)]"
    by (auto simp: download_with_timeout_def launch_and_wait_def)
  from thread_join_timeout_log [OF t] have "worker_log w"
    by (rule run_downloader_worker_log)
  with effs show ?thesis by blast
qed

lemma download_effects_facts:
  assumes "download_with_timeout now dl u out d ff mr lsc = Some ((s, e), effs)"
  shows "Thread_start u (ydl_options out ff mr lsc) \<in> set effs"
    and "Extract_info q \<notin> set effs" and "Write_file p c \<notin> set effs"
proof -
  from download_effects [OF assms] obtain w t where w: "worker_log w"
    and effs: "effs = Thread_start u (ydl_options out ff mr lsc) # w @
                     [Log INFO (Download_complete s e)] \<or>
            effs = [Thread_start u (ydl_options out ff mr lsc),
                    Log INFO (Stopping_download_after d), Stop_flag_set t] @ w @
                     [Log INFO (Download_complete s e)]"
    by blast
  from effs show "Thread_start u (ydl_options out ff mr lsc) \<in> set effs" by auto
  from worker_log_set [OF w, of "Extract_info q"] effs
  show "Extract_info q \<notin> set effs" by auto
  from worker_log_set [OF w, of "Write_file p c"] effs
  show "Write_file p c \<notin> set effs" by auto
qed

lemma is_stream_live_or_exit_queries:
  "Extract_info q \<in> set (fst (is_stream_live_or_exit extract q))"
  by (simp add: is_stream_live_or_exit_def split: sum.splits option.splits)

lemma is_stream_live_or_exit_no_thread:
  "Thread_start u' o' \<notin> set (fst (is_stream_live_or_exit extract q))"
  by (simp add: is_stream_live_or_exit_def split: sum.splits option.splits)

lemma is_stream_live_or_exit_status:
  "snd (is_stream_live_or_exit extract q) = Exit n \<Longrightarrow> n = 0"
  by (simp add: is_stream_live_or_exit_def split: sum.splits option.splits if_splits)

lemma rename_and_describe_skips:
  "\<not> (startswith file ''temp.'' \<and> \<not> endswith file ''.part'') \<Longrightarrow>
   rename_and_describe a ft file = []"
  by (auto simp: rename_and_describe_def)

lemma rename_and_describe_writes:
  "startswith file ''temp.'' \<and> \<not> endswith file ''.part'' \<Longrightarrow>
   rename_and_describe a ft file =
     [Move (path_join (output_dir a) file) (path_join (output_dir a) (final_name_of ft file)),
      Log INFO (Renamed file (final_name_of ft file)),
      Write_file
        (path_join (output_dir a) (fst (splitext (final_name_of ft file)) @ ''_files.xml''))
        (files_xml (final_name_of ft file)),
      Write_file
        (path_join (output_dir a) (fst (splitext (final_name_of ft file)) @ ''_meta.xml''))
        (meta_xml (fst (splitext (final_name_of ft file))) (ia_title a) (ia_description a)
           (ia_creator a) (ia_license a))]"
  by (simp add: rename_and_describe_def write_internet_archive_metadata_files_def Let_def)

lemma rename_and_describe_no_query:
  "Extract_info q \<notin> set (rename_and_describe a ft file)"
  by (cases "startswith file ''temp.'' \<and> \<not> endswith file ''.part''")
     (simp_all add: rename_and_describe_writes rename_and_describe_skips)

lemma main_capture_default:
  assumes "or_else (output a) [] = []" and "main_capture a w = Some effs"
  shows "\<exists>s e deffs.
           download_with_timeout (clock w) (ydl_download w) (url a)
             (path_join (output_dir a) ''temp.%(ext)s'') (duration a) (free_formats a)
             (max_resolution a) (legacy_server_connect a) = Some ((s, e), deffs) \<and>
           effs = deffs @ [Listdir (output_dir a)] @
             concat (map (rename_and_describe a
                (generate_timestamped_output_template (utc w s) (utc w e) (prefix a)
                   ''%(ext)s'')) (listdir w))"
  using assms by (auto simp: main_capture_def Let_def split: option.splits)

lemma main_capture_explicit:
  assumes "or_else (output a) [] \<noteq> []" and "main_capture a w = Some effs"
  shows "\<exists>s e deffs.
           download_with_timeout (clock w) (ydl_download w) (url a)
             (path_join (output_dir a) (or_else (output a) [])) (duration a) (free_formats a)
             (max_resolution a) (legacy_server_connect a) = Some ((s, e), deffs) \<and>
           effs = deffs @
             write_internet_archive_metadata_files (output_dir a)
               (fst (splitext (basename (or_else (output a) []))))
               (basename (or_else (output a) []))
               (ia_title a) (ia_description a) (ia_creator a) (ia_license a)"
  using assms by (auto simp: main_capture_def Let_def split: option.splits)

lemma main_capture_effects:
  assumes "main_capture a w = Some effs"
  shows "(\<exists>o'. Thread_start (url a) o' \<in> set effs) \<and> (\<forall>q. Extract_info q \<notin> set effs)"
proof (cases "or_else (output a) [] = []")
  case True
  from main_capture_default [OF True assms] obtain s e deffs where
    d: "download_with_timeout (clock w) (ydl_download w) (url a)
             (path_join (output_dir a) ''temp.%(ext)s'') (duration a) (free_formats a)
             (max_resolution a) (legacy_server_connect a) = Some ((s, e), deffs)"
    and effs: "effs = deffs @ [Listdir (output_dir a)] @
             concat (map (rename_and_describe a
                (generate_timestamped_output_template (utc w s) (utc w e) (prefix a)
                   ''%(ext)s'')) (listdir w))"
    by blast
  from download_effects_facts(1,2) [OF d] effs show ?thesis
    by (auto simp: rename_and_describe_no_query)
next
  case False
  from main_capture_explicit [OF False assms] obtain s e deffs where
    d: "download_with_timeout (clock w) (ydl_download w) (url a)
             (path_join (output_dir a) (or_else (output a) [])) (duration a) (free_formats a)
             (max_resolution a) (legacy_server_connect a) = Some ((s, e), deffs)"
    and effs: "effs = deffs @
             write_internet_archive_metadata_files (output_dir a)
               (fst (splitext (basename (or_else (output a) []))))
               (basename (or_else (output a) []))
               (ia_title a) (ia_description a) (ia_creator a) (ia_license a)"
    by blast
  from download_effects_facts(1,2) [OF d] effs show ?thesis
    by (auto simp: write_internet_archive_metadata_files_def Let_def)
qed

lemma main_classify_exit:
  assumes "main_classify a w = (effs, Exit n)"
  shows "n = 0 \<and> (\<forall>u' o'. Thread_start u' o' \<notin> set effs) \<and> main a w = Some (effs, Exit n)"
proof -
  from assms have yt: "str_contains (url a) ''youtube.com'' \<or> str_contains (url a) ''youtu.be''"
    by (auto simp: main_classify_def split: if_splits)
  with assms have effs: "effs = [Makedirs (output_dir a), Log INFO Starting_download] @
      fst (is_stream_live_or_exit (extract_info w) (url a))"
    and st: "snd (is_stream_live_or_exit (extract_info w) (url a)) = Exit n"
    by (auto simp: main_classify_def split: prod.splits)
  from st have "n = 0" by (rule is_stream_live_or_exit_status)
  moreover from effs have "\<forall>u' o'. Thread_start u' o' \<notin> set effs"
    by (simp add: is_stream_live_or_exit_no_thread)
  moreover from assms have "main a w = Some (effs, Exit n)" by (simp add: main_def)
  ultimately show ?thesis by simp
qed

text \<open>
  The classification table as \<open>is_stream_live_or_exit\<close> implements it, its rows read in
  order. The row of a scheduled stream ends with status 0 when the release timestamp is
  missing, zero or one that \<open>datetime.fromtimestamp\<close> accepts. When the check ends the
  process, \<open>main\<close> has started no download; when it returns, \<open>main\<close> goes on to the
  capture, and a capture that returns has started the download thread.
\<close>

lemma classification_rows:
  "(answer q = Inl reason \<longrightarrow>
      is_stream_live_or_exit answer q =
        ([Extract_info q, Log WARNING (Could_not_extract_info reason)], Return ''generic'')) \<and>
   (answer q = Inr i \<and> extractor i = Some ''generic'' \<longrightarrow>
      is_stream_live_or_exit answer q =
        ([Extract_info q, Log INFO Generic_stream_detected], Return ''generic'')) \<and>
   (answer q = Inr i \<and> extractor i \<noteq> Some ''generic'' \<and> is_live i = Some True \<and>
    was_live i \<noteq> Some True \<and>
    (\<forall>ts. release_timestamp i = Some ts \<longrightarrow> ts = 0 \<or> fromtimestamp_ok ts) \<longrightarrow>
      snd (is_stream_live_or_exit answer q) = Exit 0) \<and>
   (answer q = Inr i \<and> extractor i \<noteq> Some ''generic'' \<and> is_live i = Some True \<and>
    was_live i = Some True \<longrightarrow>
      is_stream_live_or_exit answer q =
        ([Extract_info q, Log INFO Stream_already_ended], Exit 0)) \<and>
   (answer q = Inr i \<and> extractor i \<noteq> Some ''generic'' \<and> is_live i \<noteq> Some True \<longrightarrow>
      is_stream_live_or_exit answer q =
        ([Extract_info q, Log INFO Not_a_live_stream], Return ''structured'')) \<and>
   (main_classify a w = (effs, Exit n) \<longrightarrow>
      n = 0 \<and> (\<forall>u' o'. Thread_start u' o' \<notin> set effs) \<and> main a w = Some (effs, Exit n)) \<and>
   (main_classify a w = (effs, Return st) \<longrightarrow>
      main a w =
        (case main_capture a w of None \<Rightarrow> None
         | Some effs' \<Rightarrow> Some (effs @ effs', Return ())) \<and>
      (\<forall>effs'. main_capture a w = Some effs' \<longrightarrow>
         (\<exists>o'. Thread_start (url a) o' \<in> set effs')))"
proof (intro conjI impI)
  show "is_stream_live_or_exit answer q =
        ([Extract_info q, Log WARNING (Could_not_extract_info reason)], Return ''generic'')"
    if "answer q = Inl reason"
    using that by (simp add: is_stream_live_or_exit_def)
  show "is_stream_live_or_exit answer q =
        ([Extract_info q, Log INFO Generic_stream_detected], Return ''generic'')"
    if "answer q = Inr i \<and> extractor i = Some ''generic''"
    using that by (simp add: is_stream_live_or_exit_def)
  show "snd (is_stream_live_or_exit answer q) = Exit 0"
    if "answer q = Inr i \<and> extractor i \<noteq> Some ''generic'' \<and> is_live i = Some True \<and>
        was_live i \<noteq> Some True \<and>
        (\<forall>ts. release_timestamp i = Some ts \<longrightarrow> ts = 0 \<or> fromtimestamp_ok ts)"
    using that by (auto simp: is_stream_live_or_exit_def truthy_def split: option.splits)
  show "is_stream_live_or_exit answer q =
        ([Extract_info q, Log INFO Stream_already_ended], Exit 0)"
    if "answer q = Inr i \<and> extractor i \<noteq> Some ''generic'' \<and> is_live i = Some True \<and>
        was_live i = Some True"
    using that by (simp add: is_stream_live_or_exit_def truthy_def)
  show "is_stream_live_or_exit answer q =
        ([Extract_info q, Log INFO Not_a_live_stream], Return ''structured'')"
    if "answer q = Inr i \<and> extractor i \<noteq> Some ''generic'' \<and> is_live i \<noteq> Some True"
    using that by (simp add: is_stream_live_or_exit_def truthy_def)
  show "n = 0" and "\<forall>u' o'. Thread_start u' o' \<notin> set effs"
    and "main a w = Some (effs, Exit n)"
    if "main_classify a w = (effs, Exit n)"
    using main_classify_exit [OF that] by simp_all
  show "main a w =
        (case main_capture a w of None \<Rightarrow> None
         | Some effs' \<Rightarrow> Some (effs @ effs', Return ()))"
    if "main_classify a w = (effs, Return st)"
    using that by (simp add: main_def)
  show "\<forall>effs'. main_capture a w = Some effs' \<longrightarrow>
         (\<exists>o'. Thread_start (url a) o' \<in> set effs')"
    using main_capture_effects by blast
qed

text \<open>
  Claim C10. \<open>main\<close> queries the stream's metadata exactly when the URL contains
  \<open>youtube.com\<close> or \<open>youtu.be\<close> somewhere in it. For any other URL the live check is
  skipped, the stream type is \<open>generic\<close>, and \<open>main\<close> goes straight to the capture: a run
  that ends has started the download and made no metadata query.
\<close>

theorem classification_only_for_youtube:
  "((\<exists>q. Extract_info q \<in> set (fst (main_classify a w))) \<longleftrightarrow>
      (\<exists>p s. url a = p @ ''youtube.com'' @ s) \<or> (\<exists>p s. url a = p @ ''youtu.be'' @ s)) \<and>
   (\<not> ((\<exists>p s. url a = p @ ''youtube.com'' @ s) \<or> (\<exists>p s. url a = p @ ''youtu.be'' @ s)) \<longrightarrow>
      main_classify a w =
        ([Makedirs (output_dir a), Log INFO Starting_download, Log INFO Non_YouTube_URL],
         Return ''generic'') \<and>
      main a w =
        (case main_capture a w of None \<Rightarrow> None
         | Some effs' \<Rightarrow>
             Some ([Makedirs (output_dir a), Log INFO Starting_download,
                    Log INFO Non_YouTube_URL] @ effs', Return ())) \<and>
      (\<forall>effs r. main a w = Some (effs, r) \<longrightarrow>
         r = Return () \<and> (\<forall>q. Extract_info q \<notin> set effs) \<and>
         (\<exists>o'. Thread_start (url a) o' \<in> set effs)))"
proof -
  let ?yt = "(\<exists>p s. url a = p @ ''youtube.com'' @ s) \<or> (\<exists>p s. url a = p @ ''youtu.be'' @ s)"
  have yt: "?yt \<longleftrightarrow> str_contains (url a) ''youtube.com'' \<or> str_contains (url a) ''youtu.be''"
    by (simp only: str_contains_iff)
  have queried: "\<exists>q. Extract_info q \<in> set (fst (main_classify a w))" if ?yt
  proof -
    from that yt have "fst (main_classify a w) =
      [Makedirs (output_dir a), Log INFO Starting_download] @
      fst (is_stream_live_or_exit (extract_info w) (url a))"
      by (simp add: main_classify_def split: prod.splits)
    then have "Extract_info (url a) \<in> set (fst (main_classify a w))"
      by (simp add: is_stream_live_or_exit_queries)
    then show ?thesis ..
  qed
  have skipped: "main_classify a w =
        ([Makedirs (output_dir a), Log INFO Starting_download, Log INFO Non_YouTube_URL],
         Return ''generic'')" if "\<not> ?yt"
    using that yt by (simp add: main_classify_def)
  have not_queried: "\<not> (\<exists>q. Extract_info q \<in> set (fst (main_classify a w)))" if "\<not> ?yt"
    by (simp add: skipped [OF that])
  have goes_on: "main a w =
        (case main_capture a w of None \<Rightarrow> None
         | Some effs' \<Rightarrow>
             Some ([Makedirs (output_dir a), Log INFO Starting_download,
                    Log INFO Non_YouTube_URL] @ effs', Return ()))" if "\<not> ?yt"
    by (simp add: main_def skipped [OF that])
  have run: "r = Return () \<and> (\<forall>q. Extract_info q \<notin> set effs) \<and>
         (\<exists>o'. Thread_start (url a) o' \<in> set effs)"
    if "\<not> ?yt" and r: "main a w = Some (effs, r)" for effs r
  proof -
    from r goes_on [OF that(1)] obtain effs' where c: "main_capture a w = Some effs'"
      and effs: "effs = [Makedirs (output_dir a), Log INFO Starting_download,
                    Log INFO Non_YouTube_URL] @ effs'" and "r = Return ()"
      by (auto split: option.splits)
    with main_capture_effects [OF c] show ?thesis by auto
  qed
  from queried not_queried skipped goes_on run show ?thesis by blast
qed

text \<open>
  Claim C6, as amended. With an explicit \<open>--output\<close>, whenever the download returns, a
  file manifest and a metadata document named after the stem of the output name are
  written to the output directory. On the default path, for a prefix without \<open>/\<close> (so
  that the renamed file stays in the output directory), the two documents are written
  for every directory entry that starts with \<open>temp.\<close> and does not end with \<open>.part\<close>,
  named after the stem of the name that entry is renamed to. When the directory holds
  no such entry, no document is written.
\<close>

theorem sidecars_written:
  "(or_else (output a) [] \<noteq> [] \<and> main_capture a w = Some effs \<longrightarrow>
      (\<exists>c. Write_file
        (path_join (output_dir a)
           (fst (splitext (basename (or_else (output a) []))) @ ''_files.xml'')) c
        \<in> set effs) \<and>
      Write_file
        (path_join (output_dir a)
           (fst (splitext (basename (or_else (output a) []))) @ ''_meta.xml''))
        (meta_xml (fst (splitext (basename (or_else (output a) [])))) (ia_title a)
           (ia_description a) (ia_creator a) (ia_license a)) \<in> set effs) \<and>
   (or_else (output a) [] = [] \<and> CHR ''/'' \<notin> set (prefix a) \<and>
    main_capture a w = Some effs \<longrightarrow>
      (\<exists>s e deffs.
         download_with_timeout (clock w) (ydl_download w) (url a)
           (path_join (output_dir a) ''temp.%(ext)s'') (duration a) (free_formats a)
           (max_resolution a) (legacy_server_connect a) = Some ((s, e), deffs) \<and>
         (\<forall>file \<in> set (listdir w).
            startswith file ''temp.'' \<and> \<not> endswith file ''.part'' \<longrightarrow>
            Write_file
              (path_join (output_dir a)
                 (fst (splitext (final_name_of
                    (generate_timestamped_output_template (utc w s) (utc w e) (prefix a)
                       ''%(ext)s'') file)) @ ''_files.xml''))
              (files_xml (final_name_of
                 (generate_timestamped_output_template (utc w s) (utc w e) (prefix a)
                    ''%(ext)s'') file)) \<in> set effs \<and>
            Write_file
              (path_join (output_dir a)
                 (fst (splitext (final_name_of
                    (generate_timestamped_output_template (utc w s) (utc w e) (prefix a)
                       ''%(ext)s'') file)) @ ''_meta.xml''))
              (meta_xml
                 (fst (splitext (final_name_of
                    (generate_timestamped_output_template (utc w s) (utc w e) (prefix a)
                       ''%(ext)s'') file)))
                 (ia_title a) (ia_description a) (ia_creator a) (ia_license a))
              \<in> set effs))) \<and>
   (or_else (output a) [] = [] \<and> main_capture a w = Some effs \<and>
    (\<forall>file \<in> set (listdir w). \<not> (startswith file ''temp.'' \<and> \<not> endswith file ''.part''))
      \<longrightarrow> (\<forall>p c. Write_file p c \<notin> set effs))"
proof (intro conjI impI)
  assume a: "or_else (output a) [] \<noteq> [] \<and> main_capture a w = Some effs"
  then have ne: "or_else (output a) [] \<noteq> []" and c: "main_capture a w = Some effs" by simp_all
  from main_capture_explicit [OF ne c] obtain deffs where
    effs: "effs = deffs @
             write_internet_archive_metadata_files (output_dir a)
               (fst (splitext (basename (or_else (output a) []))))
               (basename (or_else (output a) []))
               (ia_title a) (ia_description a) (ia_creator a) (ia_license a)"
    by blast
  have "Write_file
        (path_join (output_dir a)
           (fst (splitext (basename (or_else (output a) []))) @ ''_files.xml''))
        (files_xml (basename (or_else (output a) []))) \<in> set effs"
    by (simp add: effs write_internet_archive_metadata_files_def Let_def)
  then show "\<exists>c. Write_file
        (path_join (output_dir a)
           (fst (splitext (basename (or_else (output a) []))) @ ''_files.xml'')) c
        \<in> set effs" ..
  show "Write_file
        (path_join (output_dir a)
           (fst (splitext (basename (or_else (output a) []))) @ ''_meta.xml''))
        (meta_xml (fst (splitext (basename (or_else (output a) [])))) (ia_title a)
           (ia_description a) (ia_creator a) (ia_license a)) \<in> set effs"
    by (simp add: effs write_internet_archive_metadata_files_def Let_def)
next
  assume a: "or_else (output a) [] = [] \<and> CHR ''/'' \<notin> set (prefix a) \<and>
    main_capture a w = Some effs"
  then have em: "or_else (output a) [] = []" and c: "main_capture a w = Some effs" by simp_all
  from main_capture_default [OF em c] obtain s e deffs where
    d: "download_with_timeout (clock w) (ydl_download w) (url a)
             (path_join (output_dir a) ''temp.%(ext)s'') (duration a) (free_formats a)
             (max_resolution a) (legacy_server_connect a) = Some ((s, e), deffs)"
    and effs: "effs = deffs @ [Listdir (output_dir a)] @
             concat (map (rename_and_describe a
                (generate_timestamped_output_template (utc w s) (utc w e) (prefix a)
                   ''%(ext)s'')) (listdir w))"
    by blast
  let ?ft = "generate_timestamped_output_template (utc w s) (utc w e) (prefix a) ''%(ext)s''"
  have written: "Write_file
              (path_join (output_dir a) (fst (splitext (final_name_of ?ft f)) @ ''_files.xml''))
              (files_xml (final_name_of ?ft f)) \<in> set effs \<and>
            Write_file
              (path_join (output_dir a) (fst (splitext (final_name_of ?ft f)) @ ''_meta.xml''))
              (meta_xml (fst (splitext (final_name_of ?ft f)))
                 (ia_title a) (ia_description a) (ia_creator a) (ia_license a)) \<in> set effs"
    if mem: "f \<in> set (listdir w)"
      and ok: "startswith f ''temp.'' \<and> \<not> endswith f ''.part''" for f
  proof -
    have "set (rename_and_describe a ?ft f) \<subseteq> set effs"
      using mem unfolding effs by auto
    then show ?thesis
      unfolding rename_and_describe_writes [OF ok] by simp
  qed
  with d show "\<exists>s e deffs.
         download_with_timeout (clock w) (ydl_download w) (url a)
           (path_join (output_dir a) ''temp.%(ext)s'') (duration a) (free_formats a)
           (max_resolution a) (legacy_server_connect a) = Some ((s, e), deffs) \<and>
         (\<forall>file \<in> set (listdir w).
            startswith file ''temp.'' \<and> \<not> endswith file ''.part'' \<longrightarrow>
            Write_file
              (path_join (output_dir a)
                 (fst (splitext (final_name_of
                    (generate_timestamped_output_template (utc w s) (utc w e) (prefix a)
                       ''%(ext)s'') file)) @ ''_files.xml''))
              (files_xml (final_name_of
                 (generate_timestamped_output_template (utc w s) (utc w e) (prefix a)
                    ''%(ext)s'') file)) \<in> set effs \<and>
            Write_file
              (path_join (output_dir a)
                 (fst (splitext (final_name_of
                    (generate_timestamped_output_template (utc w s) (utc w e) (prefix a)
                       ''%(ext)s'') file)) @ ''_meta.xml''))
              (meta_xml
                 (fst (splitext (final_name_of
                    (generate_timestamped_output_template (utc w s) (utc w e) (prefix a)
                       ''%(ext)s'') file)))
                 (ia_title a) (ia_description a) (ia_creator a) (ia_license a))
              \<in> set effs)"
    by blast
next
  assume a: "or_else (output a) [] = [] \<and> main_capture a w = Some effs \<and>
    (\<forall>file \<in> set (listdir w). \<not> (startswith file ''temp.'' \<and> \<not> endswith file ''.part''))"
  then have em: "or_else (output a) [] = []" and c: "main_capture a w = Some effs"
    and none: "\<forall>file \<in> set (listdir w).
                 \<not> (startswith file ''temp.'' \<and> \<not> endswith file ''.part'')"
    by simp_all
  from main_capture_default [OF em c] obtain s e deffs where
    d: "download_with_timeout (clock w) (ydl_download w) (url a)
             (path_join (output_dir a) ''temp.%(ext)s'') (duration a) (free_formats a)
             (max_resolution a) (legacy_server_connect a) = Some ((s, e), deffs)"
    and effs: "effs = deffs @ [Listdir (output_dir a)] @
             concat (map (rename_and_describe a
                (generate_timestamped_output_template (utc w s) (utc w e) (prefix a)
                   ''%(ext)s'')) (listdir w))"
    by blast
  have "concat (map (rename_and_describe a
          (generate_timestamped_output_template (utc w s) (utc w e) (prefix a) ''%(ext)s''))
          (listdir w)) = []"
    using none by (simp add: rename_and_describe_skips)
  with effs download_effects_facts(3) [OF d] show "\<forall>p c. Write_file p c \<notin> set effs"
    by simp
qed

section \<open>The example invocations, evaluated\<close>

lemma stream_args_fields:
  "url stream_args = ''http://radio.example/live.mp3''" "output stream_args = None"
  "duration stream_args = 5" "prefix stream_args = ''show_''" "output_dir stream_args = ''.''"
  "free_formats stream_args = False" "max_resolution stream_args = None"
  "legacy_server_connect stream_args = False" "ia_title stream_args = None"
  "ia_description stream_args = None" "ia_creator stream_args = None"
  "ia_license stream_args = None"
  by (simp_all add: stream_args_def)

lemma explicit_args_fields:
  "url explicit_args = ''http://radio.example/live.mp3''"
  "output explicit_args = Some ''video.%(ext)s''"
  "duration explicit_args = 5" "output_dir explicit_args = ''.''"
  "free_formats explicit_args = False" "max_resolution explicit_args = None"
  "legacy_server_connect explicit_args = False" "ia_title explicit_args = None"
  "ia_description explicit_args = None" "ia_creator explicit_args = None"
  "ia_license explicit_args = None"
  by (simp_all add: explicit_args_def stream_args_def)

lemma youtube_args_fields:
  "url youtube_args = ''https://www.youtube.com/watch?v=abc''" "output_dir youtube_args = ''.''"
  by (simp_all add: youtube_args_def stream_args_def)

lemma finished_world_fields:
  "ydl_download finished_world = finishing_worker 3" "clock finished_world = 100"
  "listdir finished_world = [''temp.mp4'']" "utc finished_world = example_utc"
  "extract_info finished_world = failing_extract"
  by (simp_all add: finished_world_def)

lemma interrupted_world_fields:
  "ydl_download interrupted_world = reporting_worker" "clock interrupted_world = 100"
  "listdir interrupted_world = [''temp.mp4.part'']" "utc interrupted_world = example_utc"
  by (simp_all add: interrupted_world_def)

lemma download_finishing_example:
  "download_with_timeout 100 (finishing_worker 3) u out 5 ff mr lsc =
     Some ((100, 103),
           [Thread_start u (ydl_options out ff mr lsc), Log INFO (Download_complete 100 103)])"
proof -
  have "download_with_timeout 100 (finishing_worker 3) u out 5 ff mr lsc =
     Some ((100, 100 + 3),
           Thread_start u (ydl_options out ff mr lsc) # [] @
           [Log INFO (Download_complete 100 (100 + 3))])"
    by (rule download_natural)
       (simp_all add: finishing_worker_def hook_result_simps)
  then show ?thesis by simp
qed

lemma download_reporting_example:
  "download_with_timeout 100 reporting_worker u out 5 ff mr lsc =
     Some ((100, 106),
           [Thread_start u (ydl_options out ff mr lsc), Log INFO (Stopping_download_after 5),
            Stop_flag_set 105, Log WARNING (Download_interrupted ''Timeout reached''),
            Log INFO (Download_complete 100 106)])"
proof -
  have "download_with_timeout 100 reporting_worker u out 5 ff mr lsc =
     Some ((100, 100 + 6),
           [Thread_start u (ydl_options out ff mr lsc), Log INFO (Stopping_download_after 5),
            Stop_flag_set (100 + nat 5)] @
           [Log WARNING (Download_interrupted ''Timeout reached'')] @
           [Log INFO (Download_complete 100 (100 + 6))])"
    by (rule download_stopped)
       (simp_all add: reporting_worker_def hook_result_simps)
  then show ?thesis by simp
qed

lemma example_paths:
  "path_join ''.'' ''temp.%(ext)s'' = ''./temp.%(ext)s''"
  "path_join ''.'' ''video.%(ext)s'' = ''./video.%(ext)s''"
  "path_join ''.'' ''video_files.xml'' = ''./video_files.xml''"
  "path_join ''.'' ''video_meta.xml'' = ''./video_meta.xml''"
  "basename ''video.%(ext)s'' = ''video.%(ext)s''"
  "splitext ''video.%(ext)s'' = (''video'', ''.%(ext)s'')"
  by code_simp+

lemma example_final_name:
  "final_name_of
     (generate_timestamped_output_template (example_utc 100) (example_utc 103) ''show_''
        ''%(ext)s'') ''temp.mp4'' = ''show_live_20240101T000140_to_20240101T000143.mp4''"
  "splitext ''show_live_20240101T000140_to_20240101T000143.mp4'' =
     (''show_live_20240101T000140_to_20240101T000143'', ''.mp4'')"
  "path_join ''.'' ''show_live_20240101T000140_to_20240101T000143_files.xml'' =
     ''./show_live_20240101T000140_to_20240101T000143_files.xml''"
  "path_join ''.'' ''show_live_20240101T000140_to_20240101T000143_meta.xml'' =
     ''./show_live_20240101T000140_to_20240101T000143_meta.xml''"
  by code_simp+

lemma example_entries:
  "startswith ''temp.mp4'' ''temp.''" "\<not> endswith ''temp.mp4'' ''.part''"
  "startswith ''temp.mp4.part'' ''temp.''" "endswith ''temp.mp4.part'' ''.part''"
  by (simp_all add: startswith_def endswith_def)

lemma example_urls:
  "\<not> str_contains ''http://radio.example/live.mp3'' ''youtube.com''"
  "\<not> str_contains ''http://radio.example/live.mp3'' ''youtu.be''"
  "str_contains ''https://www.youtube.com/watch?v=abc'' ''youtube.com''"
  by (simp_all add: str_contains.simps startswith_def)

lemma capture_explicit_example:
  "main_capture explicit_args finished_world =
     Some [Thread_start ''http://radio.example/live.mp3''
             (ydl_options ''./video.%(ext)s'' False None False),
           Log INFO (Download_complete 100 103),
           Write_file ''./video_files.xml'' (files_xml ''video.%(ext)s''),
           Write_file ''./video_meta.xml'' (meta_xml ''video'' None None None None)]"
  by (simp add: main_capture_def explicit_args_fields finished_world_fields or_else_def
      download_finishing_example example_paths write_internet_archive_metadata_files_def)

lemma capture_default_example:
  "main_capture stream_args finished_world =
     Some [Thread_start ''http://radio.example/live.mp3''
             (ydl_options ''./temp.%(ext)s'' False None False),
           Log INFO (Download_complete 100 103), Listdir ''.'',
           Move ''./temp.mp4'' ''./show_live_20240101T000140_to_20240101T000143.mp4'',
           Log INFO (Renamed ''temp.mp4'' ''show_live_20240101T000140_to_20240101T000143.mp4''),
           Write_file ''./show_live_20240101T000140_to_20240101T000143_files.xml''
             (files_xml ''show_live_20240101T000140_to_20240101T000143.mp4''),
           Write_file ''./show_live_20240101T000140_to_20240101T000143_meta.xml''
             (meta_xml ''show_live_20240101T000140_to_20240101T000143'' None None None None)]"
proof -
  have p: "path_join ''.'' ''temp.mp4'' = ''./temp.mp4''"
    "path_join ''.'' ''show_live_20240101T000140_to_20240101T000143.mp4'' =
       ''./show_live_20240101T000140_to_20240101T000143.mp4''"
    by code_simp+
  show ?thesis
    by (simp add: main_capture_def stream_args_fields finished_world_fields or_else_def
        download_finishing_example example_paths rename_and_describe_writes example_entries
        example_final_name p)
qed

lemma capture_interrupted_example:
  "main_capture stream_args interrupted_world =
     Some [Thread_start ''http://radio.example/live.mp3''
             (ydl_options ''./temp.%(ext)s'' False None False),
           Log INFO (Stopping_download_after 5), Stop_flag_set 105,
           Log WARNING (Download_interrupted ''Timeout reached''),
           Log INFO (Download_complete 100 106), Listdir ''.'']"
  by (simp add: main_capture_def stream_args_fields interrupted_world_fields or_else_def
      download_reporting_example example_paths rename_and_describe_skips example_entries)

theorem sidecars_written_witness:
  "(\<exists>effs. main_capture explicit_args finished_world = Some effs \<and>
      (\<exists>c. Write_file ''./video_files.xml'' c \<in> set effs) \<and>
      Write_file ''./video_meta.xml'' (meta_xml ''video'' None None None None) \<in> set effs) \<and>
   (\<exists>effs. main_capture stream_args finished_world = Some effs \<and>
      Write_file ''./show_live_20240101T000140_to_20240101T000143_files.xml''
        (files_xml ''show_live_20240101T000140_to_20240101T000143.mp4'') \<in> set effs \<and>
      Write_file ''./show_live_20240101T000140_to_20240101T000143_meta.xml''
        (meta_xml ''show_live_20240101T000140_to_20240101T000143'' None None None None)
        \<in> set effs) \<and>
   (\<exists>effs. main_capture stream_args interrupted_world = Some effs \<and>
      (\<forall>p c. Write_file p c \<notin> set effs))"
proof -
  obtain effs1 where c1: "main_capture explicit_args finished_world = Some effs1"
    using capture_explicit_example by blast
  have h1: "or_else (output explicit_args) [] \<noteq> [] \<and>
            main_capture explicit_args finished_world = Some effs1"
    using c1 by (simp add: explicit_args_fields or_else_def)
  from sidecars_written [of explicit_args finished_world effs1] h1
  have a: "(\<exists>c. Write_file ''./video_files.xml'' c \<in> set effs1) \<and>
      Write_file ''./video_meta.xml'' (meta_xml ''video'' None None None None) \<in> set effs1"
    by (simp add: explicit_args_fields or_else_def example_paths)
  obtain effs2 where c2: "main_capture stream_args finished_world = Some effs2"
    using capture_default_example by blast
  have h2: "or_else (output stream_args) [] = [] \<and> CHR ''/'' \<notin> set (prefix stream_args) \<and>
            main_capture stream_args finished_world = Some effs2"
    using c2 by (simp add: stream_args_fields or_else_def)
  have f2: "''temp.mp4'' \<in> set (listdir finished_world)"
    by (simp add: finished_world_fields)
  from sidecars_written [of stream_args finished_world effs2] h2 f2
  have b: "Write_file ''./show_live_20240101T000140_to_20240101T000143_files.xml''
        (files_xml ''show_live_20240101T000140_to_20240101T000143.mp4'') \<in> set effs2 \<and>
      Write_file ''./show_live_20240101T000140_to_20240101T000143_meta.xml''
        (meta_xml ''show_live_20240101T000140_to_20240101T000143'' None None None None)
        \<in> set effs2"
    by (simp add: stream_args_fields finished_world_fields example_paths
        download_finishing_example example_entries example_final_name)
  obtain effs3 where c3: "main_capture stream_args interrupted_world = Some effs3"
    using capture_interrupted_example by blast
  have h3: "or_else (output stream_args) [] = [] \<and>
            main_capture stream_args interrupted_world = Some effs3 \<and>
            (\<forall>f \<in> set (listdir interrupted_world).
              \<not> (startswith f ''temp.'' \<and> \<not> endswith f ''.part''))"
    using c3 by (simp add: stream_args_fields or_else_def interrupted_world_fields
        example_entries)
  from sidecars_written [of stream_args interrupted_world effs3] h3
  have c: "\<forall>p c. Write_file p c \<notin> set effs3" by blast
  from a b c c1 c2 c3 show ?thesis by blast
qed

text \<open>
  The claim as stated fails on the default path: a download that is cut off at the
  deadline leaves \<open>temp.mp4.part\<close> only, the capture window is returned, and \<open>main\<close> ends
  without having written any document.
\<close>

theorem sidecars_missing_after_timeout:
  "main stream_args interrupted_world =
     Some ([Makedirs ''.'', Log INFO Starting_download, Log INFO Non_YouTube_URL,
            Thread_start ''http://radio.example/live.mp3''
              (ydl_options ''./temp.%(ext)s'' False None False),
            Log INFO (Stopping_download_after 5), Stop_flag_set 105,
            Log WARNING (Download_interrupted ''Timeout reached''),
            Log INFO (Download_complete 100 106), Listdir ''.''],
           Return ())"
  by (simp add: main_def main_classify_def stream_args_fields example_urls
      capture_interrupted_example)

text \<open>
  Claim C5. A stream that is live and was not live before must end the process with
  status 0. The code does so for a release timestamp that \<open>datetime.fromtimestamp\<close> accepts
  (the first run below), but formats the timestamp for the log before it reaches
  \<open>exit(0)\<close>: with a timestamp beyond the year 9999 (here one given in milliseconds)
  \<open>fromtimestamp\<close> raises, and \<open>main\<close> ends by that exception instead (the second run).
  No download is started in either run.
\<close>

theorem scheduled_timestamp_out_of_range:
  "main youtube_args scheduled_world =
     Some ([Makedirs ''.'', Log INFO Starting_download,
            Extract_info ''https://www.youtube.com/watch?v=abc'',
            Log INFO (Scheduled_to_go_live_at 1704067200)], Exit 0) \<and>
   main youtube_args overflow_world =
     Some ([Makedirs ''.'', Log INFO Starting_download,
            Extract_info ''https://www.youtube.com/watch?v=abc''],
           Uncaught (Exception ''timestamp out of range''))"
  by (simp add: main_def main_classify_def youtube_args_fields example_urls
      scheduled_world_def overflow_world_def finished_world_def is_stream_live_or_exit_def
      answering_def scheduled_info_def overflow_info_def truthy_def fromtimestamp_ok_def)

theorem classification_only_for_youtube_witness:
  "(\<exists>q. Extract_info q \<in> set (fst (main_classify youtube_args finished_world))) \<and>
   main_classify stream_args finished_world =
     ([Makedirs ''.'', Log INFO Starting_download, Log INFO Non_YouTube_URL],
      Return ''generic'') \<and>
   (\<exists>effs. main stream_args finished_world = Some (effs, Return ()) \<and>
      (\<forall>q. Extract_info q \<notin> set effs) \<and>
      (\<exists>o'. Thread_start ''http://radio.example/live.mp3'' o' \<in> set effs))"
proof -
  note T = classification_only_for_youtube
  have yt: "(\<exists>p s. url youtube_args = p @ ''youtube.com'' @ s) \<or>
            (\<exists>p s. url youtube_args = p @ ''youtu.be'' @ s)"
    unfolding str_contains_iff [symmetric] by (simp add: youtube_args_fields example_urls)
  with T [of youtube_args finished_world]
  have a: "\<exists>q. Extract_info q \<in> set (fst (main_classify youtube_args finished_world))"
    by blast
  have no: "\<not> ((\<exists>p s. url stream_args = p @ ''youtube.com'' @ s) \<or>
                (\<exists>p s. url stream_args = p @ ''youtu.be'' @ s))"
    unfolding str_contains_iff [symmetric] by (simp add: stream_args_fields example_urls)
  with T [of stream_args finished_world]
  have b: "main_classify stream_args finished_world =
     ([Makedirs (output_dir stream_args), Log INFO Starting_download, Log INFO Non_YouTube_URL],
      Return ''generic'')"
    and m: "main stream_args finished_world =
        (case main_capture stream_args finished_world of None \<Rightarrow> None
         | Some effs' \<Rightarrow>
             Some ([Makedirs (output_dir stream_args), Log INFO Starting_download,
                    Log INFO Non_YouTube_URL] @ effs', Return ()))"
    and r: "\<forall>effs r. main stream_args finished_world = Some (effs, r) \<longrightarrow>
         r = Return () \<and> (\<forall>q. Extract_info q \<notin> set effs) \<and>
         (\<exists>o'. Thread_start (url stream_args) o' \<in> set effs)"
    by blast+
  from m obtain effs where e: "main stream_args finished_world = Some (effs, Return ())"
    by (simp add: capture_default_example)
  with r have "(\<forall>q. Extract_info q \<notin> set effs) \<and>
      (\<exists>o'. Thread_start (url stream_args) o' \<in> set effs)"
    by blast
  with a b e show ?thesis by (auto simp: stream_args_fields)
qed

end
